theory Spec2Isabelle
  imports Complex_Main
begin

section \<open>Numbers and their rendering\<close>

text \<open>
  The program's \<open>number\<close> values are binary64 doubles. A finite double is modelled as the
  real it denotes; \<open>is_double\<close> says that a real is one. Comparison, \<open>Math.floor\<close>,
  \<open>Math.round\<close>, the remainder operator and the digit generation of \<open>toFixed\<close> are exact
  on doubles and are modelled exactly. A division delivers the double nearest to the
  exact quotient, ties going to the even significand: \<open>fl\<close>. The quotients taken here
  (by 3600, 60 and 1000) cannot overflow, so \<open>fl\<close> leaves overflow out; \<open>NaN\<close> and the
  infinities are not numbers of the model.
\<close>

text \<open>Rounding a real to the nearest integer, a tie going to the even one.\<close>

definition rhe :: "real \<Rightarrow> int" where
  "rhe y =
     (let n = \<lfloor>y\<rfloor>; d = y - of_int n
      in if d < 1 / 2 then n else if 1 / 2 < d then n + 1 else if even n then n else n + 1)"

text \<open>
  The binade of a non-zero real \<open>x\<close> is the \<open>e\<close> with \<open>2^e \<le> |x| < 2^(e+1)\<close>. The doubles
  of that binade are the multiples of \<open>2^(e-52)\<close>; below \<open>2^(-1022)\<close> (the subnormal
  range) they are the multiples of \<open>2^(-1074)\<close>. \<open>ulp x\<close> is that spacing.
\<close>

definition binade :: "real \<Rightarrow> int" where
  "binade x = \<lfloor>log 2 \<bar>x\<bar>\<rfloor>"

definition ulp :: "real \<Rightarrow> real" where
  "ulp x = 2 powi (max (binade x) (- 1022) - 52)"

definition fl :: "real \<Rightarrow> real" where
  "fl x = (if x = 0 then 0 else ulp x * of_int (rhe (x / ulp x)))"

definition is_double :: "real \<Rightarrow> bool" where
  "is_double x = (fl x = x \<and> \<bar>x\<bar> < 2 ^ 1024)"

definition digit_char :: "nat \<Rightarrow> char" where
  "digit_char d = ''0123456789'' ! d"

text \<open>The decimal digits of a natural number, most significant first.\<close>

fun digits :: "nat \<Rightarrow> string" where
  "digits n = (if n < 10 then [digit_char n] else digits (n div 10) @ [digit_char (n mod 10)])"

declare digits.simps [simp del]

text \<open>
  String conversion of an integer-valued number (template literals, \<open>String(x)\<close>): with
  \<open>n\<close> the number of decimal digits, plain decimal when \<open>n \<le> 21\<close>; otherwise the
  significant digits (trailing zeros dropped), a point after the first of them when
  there are several, and the exponent \<open>e+(n-1)\<close>. The language prints the shortest
  digits that identify the double; below \<open>2^53\<close> every integer is a double of its own and
  these are all its digits, as here; for a larger double the digits printed here
  are those of its exact value, which are not always the shortest.
\<close>

definition toString_nat :: "nat \<Rightarrow> string" where
  "toString_nat x =
     (let ds = digits x; n = length ds in
      if n \<le> 21 then ds
      else let s = rev (dropWhile (\<lambda>c. c = CHR ''0'') (rev ds)) in
        (if length s = 1 then s else hd s # CHR ''.'' # tl s) @ ''e+'' @ digits (n - 1))"

definition Number_toString :: "int \<Rightarrow> string" where
  "Number_toString x = (if x < 0 then ''-'' @ toString_nat (nat (- x)) else toString_nat (nat x))"

text \<open>\<open>Math.round\<close>: the nearest integer, a tie going towards plus infinity.\<close>

definition Math_round :: "real \<Rightarrow> int" where
  "Math_round x = \<lfloor>x + 1 / 2\<rfloor>"

text \<open>\<open>Math.floor\<close>.\<close>

definition Math_floor :: "real \<Rightarrow> int" where
  "Math_floor x = \<lfloor>x\<rfloor>"

text \<open>
  The remainder operator \<open>x % y\<close> for a non-zero divisor: the quotient is truncated
  towards zero, so the result has the sign of the dividend. (The program divides by the
  literal 3600 only.)
\<close>

definition js_rem :: "real \<Rightarrow> real \<Rightarrow> real" where
  "js_rem x y = x - y * of_int (if 0 \<le> x / y then \<lfloor>x / y\<rfloor> else \<lceil>x / y\<rceil>)"

text \<open>
  \<open>x.toFixed(f)\<close>: the sign is split off; a magnitude of at least \<open>10^21\<close> is rendered
  by plain string conversion (every double that large is an integer; the model reads a
  real through its floor there); below that, \<open>n\<close> is the integer nearest to
  \<open>x * 10^f\<close>, the larger one on a tie, its digits are padded with zeros to at least
  \<open>f + 1\<close> places, and the point goes before the last \<open>f\<close> of them.
\<close>

definition fixed_digits :: "nat \<Rightarrow> nat \<Rightarrow> string" where
  "fixed_digits n f =
     (let m = digits n;
          m = (if length m \<le> f then replicate (f + 1 - length m) (CHR ''0'') @ m else m);
          k = length m
      in if f \<noteq> 0 then take (k - f) m @ ''.'' @ drop (k - f) m else m)"

definition toFixed :: "real \<Rightarrow> nat \<Rightarrow> string" where
  "toFixed x0 f =
     (let s = (if x0 < 0 then ''-'' else '''');
          x = \<bar>x0\<bar>
      in if 10 ^ 21 \<le> x then s @ Number_toString \<lfloor>x\<rfloor>
         else s @ fixed_digits (nat \<lfloor>x * 10 ^ f + 1 / 2\<rfloor>) f)"

section \<open>Geometry and formatting utilities\<close>

definition formatDistance :: "real \<Rightarrow> string" where
  "formatDistance meters =
     (if meters < 1000 then Number_toString (Math_round meters) @ '' m''
      else toFixed (fl (meters / 1000)) 1 @ '' km'')"

definition formatDuration :: "real \<Rightarrow> string" where
  "formatDuration seconds =
     (let hours = Math_floor (fl (seconds / 3600));
          minutes = Math_floor (fl (js_rem seconds 3600 / 60))
      in if hours > 0 then Number_toString hours @ ''h '' @ Number_toString minutes @ ''min''
         else Number_toString minutes @ '' min'')"

text \<open>
  A coordinate pair in WGS84 degrees.
\<close>

record Coordinates =
  lng :: real
  lat :: real

text \<open>
  \<open>calculateDistance\<close> is written here with exact arithmetic and exact trigonometric
  functions: the language leaves the results of \<open>Math.sin\<close>, \<open>Math.cos\<close> and
  \<open>Math.atan2\<close> to the platform, within an approximation. \<open>Math.sqrt\<close> has no value
  (\<open>NaN\<close>) below zero; \<open>None\<close> stands for \<open>NaN\<close> here and in the distance computed
  from it. With exact arithmetic the term under the roots stays between 0 and 1
  (\<open>haversine_a_range\<close> below); in binary64 its rounded value can exceed 1 for points
  nearly opposite each other on the globe, where the program returns \<open>NaN\<close>. For equal
  points every intermediate value is an exact zero in binary64 too.
\<close>

definition Math_sqrt :: "real \<Rightarrow> real option" where
  "Math_sqrt x = (if x < 0 then None else Some (sqrt x))"

text \<open>\<open>Math.atan2(y, x)\<close>: the angle of the point \<open>(x, y)\<close>, in \<open>(-pi, pi]\<close>.\<close>

definition Math_atan2 :: "real \<Rightarrow> real \<Rightarrow> real" where
  "Math_atan2 y x =
     (if 0 < x then arctan (y / x)
      else if x < 0 then (if 0 \<le> y then arctan (y / x) + pi else arctan (y / x) - pi)
      else if 0 < y then pi / 2
      else if y < 0 then - pi / 2
      else 0)"

text \<open>The constant \<open>a\<close> of \<open>calculateDistance\<close>: the haversine of the central angle.\<close>

definition haversine_a :: "Coordinates \<Rightarrow> Coordinates \<Rightarrow> real" where
  "haversine_a coord1 coord2 =
     (let phi1 = (lat coord1 * pi) / 180;
          phi2 = (lat coord2 * pi) / 180;
          dphi = ((lat coord2 - lat coord1) * pi) / 180;
          dlam = ((lng coord2 - lng coord1) * pi) / 180
      in sin (dphi / 2) * sin (dphi / 2) +
         cos phi1 * cos phi2 * sin (dlam / 2) * sin (dlam / 2))"

definition calculateDistance :: "Coordinates \<Rightarrow> Coordinates \<Rightarrow> real option" where
  "calculateDistance coord1 coord2 =
     (let R = 6371000;
          a = haversine_a coord1 coord2
      in case Math_sqrt a of
           None \<Rightarrow> None
         | Some y \<Rightarrow>
             (case Math_sqrt (1 - a) of
                None \<Rightarrow> None
              | Some x \<Rightarrow> Some (R * (2 * Math_atan2 y x))))"

section \<open>Routing gateway client\<close>

text \<open>
  A parsed response body is an untyped value; property reads on it follow the
  language: reading a property of \<open>null\<close> or \<open>undefined\<close> throws a \<open>TypeError\<close>, a
  missing property reads as \<open>undefined\<close>, arrays and strings have a \<open>length\<close>. In an
  object with a repeated key the last entry counts. Inherited properties hold functions,
  not data; the program uses one of them, \<open>map\<close>, modelled by \<open>js_map\<close>.
\<close>

datatype js_value =
    JUndefined
  | JNull
  | JBool bool
  | JNum real
  | JStr string
  | JArr "js_value list"
  | JObj "(string \<times> js_value) list"

datatype error = TypeError

datatype 'a outcome = Rejected | Resolved 'a

definition and_then :: "error + 'a \<Rightarrow> ('a \<Rightarrow> error + 'b) \<Rightarrow> error + 'b" where
  "and_then m f = (case m of Inl e \<Rightarrow> Inl e | Inr v \<Rightarrow> f v)"

fun get_prop :: "js_value \<Rightarrow> string \<Rightarrow> error + js_value" where
  "get_prop JUndefined k = Inl TypeError"
| "get_prop JNull k = Inl TypeError"
| "get_prop (JObj kvs) k = Inr (case map_of (rev kvs) k of Some v \<Rightarrow> v | None \<Rightarrow> JUndefined)"
| "get_prop (JArr xs) k = Inr (if k = ''length'' then JNum (real (length xs)) else JUndefined)"
| "get_prop (JStr s) k = Inr (if k = ''length'' then JNum (real (length s)) else JUndefined)"
| "get_prop (JBool b) k = Inr JUndefined"
| "get_prop (JNum n) k = Inr JUndefined"

fun get_index :: "js_value \<Rightarrow> nat \<Rightarrow> error + js_value" where
  "get_index JUndefined i = Inl TypeError"
| "get_index JNull i = Inl TypeError"
| "get_index (JArr xs) i = Inr (if i < length xs then xs ! i else JUndefined)"
| "get_index (JStr s) i = Inr (if i < length s then JStr [s ! i] else JUndefined)"
| "get_index (JObj kvs) i = get_prop (JObj kvs) (digits i)"
| "get_index (JBool b) i = Inr JUndefined"
| "get_index (JNum n) i = Inr JUndefined"

text \<open>
  \<open>xs.map((x, index) => ...)\<close>: the callback runs on the elements in order and the
  first exception ends the call. Only an array has a callable \<open>map\<close>.
\<close>

fun map_index :: "(js_value \<Rightarrow> nat \<Rightarrow> error + 'a) \<Rightarrow> nat \<Rightarrow> js_value list \<Rightarrow> error + 'a list" where
  "map_index f i [] = Inr []"
| "map_index f i (x # xs) =
     (case f x i of
        Inl e \<Rightarrow> Inl e
      | Inr y \<Rightarrow> (case map_index f (Suc i) xs of Inl e \<Rightarrow> Inl e | Inr ys \<Rightarrow> Inr (y # ys)))"

definition js_map :: "js_value \<Rightarrow> (js_value \<Rightarrow> nat \<Rightarrow> error + 'a) \<Rightarrow> error + 'a list" where
  "js_map v f = (case v of JArr xs \<Rightarrow> map_index f 0 xs | _ \<Rightarrow> Inl TypeError)"

fun truthy :: "js_value \<Rightarrow> bool" where
  "truthy JUndefined = False"
| "truthy JNull = False"
| "truthy (JBool b) = b"
| "truthy (JNum n) = (n \<noteq> 0)"
| "truthy (JStr s) = (s \<noteq> [])"
| "truthy (JArr xs) = True"
| "truthy (JObj kvs) = True"

text \<open>
  \<open>v > 0\<close>. A string, array or object operand would first be converted to a number
  from its text; that conversion is not modelled and the comparison is taken as false.
  \<open>getDirections\<close> meets such an operand only as the \<open>length\<close> entry of a \<open>routes\<close>
  value that is an object and not an array, where \<open>map\<close> is not callable, so that its
  result is the empty list whichever way the comparison goes.
\<close>

fun gt_zero :: "js_value \<Rightarrow> bool" where
  "gt_zero (JNum n) = (0 < n)"
| "gt_zero (JBool b) = b"
| "gt_zero _ = False"

record RouteStep =
  instruction :: js_value
  step_distance :: js_value
  step_duration :: js_value
  maneuver_type :: js_value
  maneuver_modifier :: js_value

record Route =
  route_id :: string
  distance :: js_value
  duration :: js_value
  geometry :: js_value
  steps :: "RouteStep list"
  isAlternative :: bool

text \<open>The callback of the inner \<open>map\<close>: one step of the response to one \<open>RouteStep\<close>.\<close>

definition mapStep :: "js_value \<Rightarrow> nat \<Rightarrow> error + RouteStep" where
  "mapStep step i =
     and_then (get_prop step ''maneuver'') (\<lambda>m1.
     and_then (get_prop m1 ''instruction'') (\<lambda>ins.
     and_then (get_prop step ''distance'') (\<lambda>dist.
     and_then (get_prop step ''duration'') (\<lambda>dur.
     and_then (get_prop step ''maneuver'') (\<lambda>m2.
     and_then (get_prop m2 ''type'') (\<lambda>ty.
     and_then (get_prop step ''maneuver'') (\<lambda>m3.
     and_then (get_prop m3 ''modifier'') (\<lambda>modi.
       Inr \<lparr>instruction = ins, step_distance = dist, step_duration = dur,
            maneuver_type = ty, maneuver_modifier = modi\<rparr>))))))))"

text \<open>The callback of the outer \<open>map\<close>: one route of the response to one \<open>Route\<close>.\<close>

definition mapRoute :: "js_value \<Rightarrow> nat \<Rightarrow> error + Route" where
  "mapRoute route index =
     and_then (get_prop route ''distance'') (\<lambda>dist.
     and_then (get_prop route ''duration'') (\<lambda>dur.
     and_then (get_prop route ''geometry'') (\<lambda>geo.
     and_then (get_prop route ''legs'') (\<lambda>legs.
     and_then (get_index legs 0) (\<lambda>leg.
     and_then (get_prop leg ''steps'') (\<lambda>ss.
     and_then (js_map ss mapStep) (\<lambda>sts.
       Inr \<lparr>route_id = ''route-'' @ Number_toString (int index), distance = dist,
            duration = dur, geometry = geo, steps = sts,
            isAlternative = (index > 0)\<rparr>)))))))"

text \<open>The body of the \<open>try\<close> block of \<open>getDirections\<close>, after the response has been parsed.\<close>

definition directions_routes :: "js_value \<Rightarrow> error + Route list" where
  "directions_routes data =
     and_then (get_prop data ''routes'') (\<lambda>routes.
       if truthy routes then
         and_then (get_prop routes ''length'') (\<lambda>n.
           if gt_zero n then js_map routes mapRoute else Inr [])
       else Inr [])"

text \<open>
  The same body with the comparison left open: \<open>getDirections_comparison_irrelevant\<close>
  below shows that the result of \<open>getDirections\<close> does not depend on what the
  comparison yields on operands that are not numbers.
\<close>

definition directions_routes_with :: "(js_value \<Rightarrow> bool) \<Rightarrow> js_value \<Rightarrow> error + Route list" where
  "directions_routes_with gt data =
     and_then (get_prop data ''routes'') (\<lambda>routes.
       if truthy routes then
         and_then (get_prop routes ''length'') (\<lambda>n.
           if gt n then js_map routes mapRoute else Inr [])
       else Inr [])"

text \<open>
  \<open>getDirections\<close>, as a function of what the request brings back: \<open>Rejected\<close> when
  \<open>fetch\<close> or the parsing of the body fails, the parsed body otherwise. Origin,
  destination and the alternatives flag go into the request's address only. The
  \<open>catch\<close> turns every exception into the empty list.
\<close>

definition getDirections :: "js_value outcome \<Rightarrow> Route list" where
  "getDirections response =
     (case response of
        Rejected \<Rightarrow> []
      | Resolved data \<Rightarrow> (case directions_routes data of Inl e \<Rightarrow> [] | Inr rs \<Rightarrow> rs))"

section \<open>Navigation session controller\<close>

record NavigationState =
  origin :: "Coordinates option"
  destination :: "Coordinates option"
  currentLocation :: "Coordinates option"
  routes :: "Route list"
  selectedRoute :: "Route option"
  isNavigating :: bool
  currentStepIndex :: nat
  isDarkMode :: bool

text \<open>
  The state of the component \<open>NavigationApp\<close>: the \<open>NavigationState\<close> and the other
  state hooks. Each \<open>setState(prev => ...)\<close> is an update of the record, applied in
  program order. Speech output, the fitting of the map to a route and console logging
  change none of these fields and are left out.
\<close>

record App =
  state :: NavigationState
  originInput :: string
  destinationInput :: string
  isVoiceEnabled :: bool
  isLoading :: bool
  showRoutes :: bool

definition initial_state :: NavigationState where
  "initial_state =
     \<lparr>origin = None, destination = None, currentLocation = None, routes = [],
      selectedRoute = None, isNavigating = False, currentStepIndex = 0,
      isDarkMode = False\<rparr>"

definition initial_app :: App where
  "initial_app =
     \<lparr>state = initial_state, originInput = [], destinationInput = [],
      isVoiceEnabled = True, isLoading = False, showRoutes = False\<rparr>"

text \<open>The effect that sets the theme from the hour of the day, run once after mounting.\<close>

definition autoDarkMode :: "nat \<Rightarrow> App \<Rightarrow> App" where
  "autoDarkMode hour app =
     (let shouldBeDark = (hour < 6 \<or> hour \<ge> 18)
      in app\<lparr>state := (state app)\<lparr>isDarkMode := shouldBeDark\<rparr>\<rparr>)"

text \<open>The success callback of \<open>getCurrentPosition\<close>.\<close>

definition onCurrentPosition :: "Coordinates \<Rightarrow> App \<Rightarrow> App" where
  "onCurrentPosition coords app = app\<lparr>state := (state app)\<lparr>currentLocation := Some coords\<rparr>\<rparr>"

definition handleStopNavigation :: "App \<Rightarrow> App" where
  "handleStopNavigation app =
     app\<lparr>state := (state app)\<lparr>isNavigating := False, currentStepIndex := 0, routes := [],
                               selectedRoute := None, origin := None, destination := None\<rparr>,
         showRoutes := False, originInput := [], destinationInput := []\<rparr>"

text \<open>
  The callback of \<open>watchPosition\<close>. It stores the new location through a functional
  update, and reads origin, destination, selected route and step index from the state
  that the effect captured when it last ran (\<open>captured\<close>); the effect runs again
  whenever the navigating flag, the selected route or the step index changes.
  \<open>steps[i]\<close> is a step object, which is truthy, when \<open>i\<close> is in range and \<open>undefined\<close>
  otherwise; a distance that is \<open>NaN\<close> is not below 50.
\<close>

definition watchCallback :: "NavigationState \<Rightarrow> Coordinates \<Rightarrow> App \<Rightarrow> App" where
  "watchCallback captured newLocation app =
     (let app1 = app\<lparr>state := (state app)\<lparr>currentLocation := Some newLocation\<rparr>\<rparr>
      in case (origin captured, destination captured) of
           (Some o1, Some dest) \<Rightarrow>
             (case selectedRoute captured of
                None \<Rightarrow> app1
              | Some r \<Rightarrow>
                  if currentStepIndex captured < length (steps r) then
                    (case calculateDistance newLocation dest of
                       None \<Rightarrow> app1
                     | Some distanceToDestination \<Rightarrow>
                         if distanceToDestination < 50 then handleStopNavigation app1
                         else app1)
                  else app1)
         | _ \<Rightarrow> app1)"

text \<open>
  \<open>handleSearch\<close>, as a function of what its three requests bring back. A geocoding
  call resolves to coordinates or to \<open>null\<close> (\<open>geocodeAddress\<close> catches the errors of
  its request), or is rejected when the address cannot be encoded; the second call is
  made only after the first has resolved. The handler runs here in one piece: updates
  by other handlers between its requests are not modelled.
\<close>

definition handleSearch ::
  "Coordinates option outcome \<Rightarrow> Coordinates option outcome \<Rightarrow> js_value outcome \<Rightarrow> App \<Rightarrow> App" where
  "handleSearch originResult destResult directions app =
     (if originInput app = [] \<or> destinationInput app = [] then app
      else
        let app1 = app\<lparr>isLoading := True\<rparr>;
            app2 =
              (case originResult of
                 Rejected \<Rightarrow> app1
               | Resolved originCoords \<Rightarrow>
                   (case destResult of
                      Rejected \<Rightarrow> app1
                    | Resolved destCoords \<Rightarrow>
                        (case (originCoords, destCoords) of
                           (Some oc, Some dc) \<Rightarrow>
                             let app3 = app1\<lparr>state := (state app1)\<lparr>origin := Some oc,
                                                                    destination := Some dc\<rparr>\<rparr>;
                                 rs = getDirections directions;
                                 app4 = app3\<lparr>state := (state app3)\<lparr>routes := rs,
                                    selectedRoute := (case rs of [] \<Rightarrow> None | r # _ \<Rightarrow> Some r)\<rparr>\<rparr>
                             in app4\<lparr>showRoutes := True\<rparr>
                         | _ \<Rightarrow> app1)))
        in app2\<lparr>isLoading := False\<rparr>)"

definition handleStartNavigation :: "App \<Rightarrow> App" where
  "handleStartNavigation app =
     (if selectedRoute (state app) = None then app
      else app\<lparr>state := (state app)\<lparr>isNavigating := True, currentStepIndex := 0\<rparr>\<rparr>)"

definition handleSelectRoute :: "Route \<Rightarrow> App \<Rightarrow> App" where
  "handleSelectRoute route app = app\<lparr>state := (state app)\<lparr>selectedRoute := Some route\<rparr>\<rparr>"

definition toggleDarkMode :: "App \<Rightarrow> App" where
  "toggleDarkMode app = app\<lparr>state := (state app)\<lparr>isDarkMode := \<not> isDarkMode (state app)\<rparr>\<rparr>"

text \<open>
  The events of a session and the controls that raise them: the two effects that run
  after mounting, the position watch, the two text inputs (disabled while navigating),
  the search (the button and the Enter key of the inputs, neither available while
  navigating), the route list and the start button (shown with a non-empty route list
  when not navigating), the stop button (shown while navigating) and the two toggles.

  The position watch is subscribed by an effect that runs when the navigating flag,
  the selected route or the step index has changed, and only while navigating with a
  selected route. Its callback reads the state of the render in which the effect ran:
  the event carries that captured state, which agrees with the current state in the
  three fields the effect depends on, while its origin and destination may be older
  than the current ones.
\<close>

datatype event =
    AutoDarkMode nat
  | CurrentPosition Coordinates
  | WatchPosition NavigationState Coordinates
  | OriginInput string
  | DestinationInput string
  | Search "Coordinates option outcome" "Coordinates option outcome" "js_value outcome"
  | SelectRoute Route
  | StartNavigation
  | StopNavigation
  | ToggleDarkMode
  | ToggleVoice

fun enabled :: "event \<Rightarrow> App \<Rightarrow> bool" where
  "enabled (WatchPosition captured c) app =
     (isNavigating captured \<and> selectedRoute captured \<noteq> None
      \<and> isNavigating (state app) = isNavigating captured
      \<and> selectedRoute (state app) = selectedRoute captured
      \<and> currentStepIndex (state app) = currentStepIndex captured)"
| "enabled (OriginInput s) app = (\<not> isNavigating (state app))"
| "enabled (DestinationInput s) app = (\<not> isNavigating (state app))"
| "enabled (Search r1 r2 d) app = (\<not> isNavigating (state app))"
| "enabled (SelectRoute r) app =
     (showRoutes app \<and> r \<in> set (routes (state app)) \<and> \<not> isNavigating (state app))"
| "enabled StartNavigation app =
     (showRoutes app \<and> routes (state app) \<noteq> [] \<and> \<not> isNavigating (state app))"
| "enabled StopNavigation app = isNavigating (state app)"
| "enabled _ app = True"

fun fire :: "event \<Rightarrow> App \<Rightarrow> App" where
  "fire (AutoDarkMode hour) app = autoDarkMode hour app"
| "fire (CurrentPosition c) app = onCurrentPosition c app"
| "fire (WatchPosition captured c) app = watchCallback captured c app"
| "fire (OriginInput s) app = app\<lparr>originInput := s\<rparr>"
| "fire (DestinationInput s) app = app\<lparr>destinationInput := s\<rparr>"
| "fire (Search r1 r2 d) app = handleSearch r1 r2 d app"
| "fire (SelectRoute r) app = handleSelectRoute r app"
| "fire StartNavigation app = handleStartNavigation app"
| "fire StopNavigation app = handleStopNavigation app"
| "fire ToggleDarkMode app = toggleDarkMode app"
| "fire ToggleVoice app = app\<lparr>isVoiceEnabled := \<not> isVoiceEnabled app\<rparr>"

inductive reachable :: "App \<Rightarrow> bool" where
  reachable_initial: "reachable initial_app"
| reachable_fire: "reachable app \<Longrightarrow> enabled e app \<Longrightarrow> reachable (fire e app)"

text \<open>
  The session states of the specification, read off the \<open>NavigationState\<close>: navigating,
  or choosing among the routes of a search; every other state is idle.
\<close>

definition non_idle :: "NavigationState \<Rightarrow> bool" where
  "non_idle s = (isNavigating s \<or> selectedRoute s \<noteq> None)"

section \<open>Shapes of a directions response\<close>

text \<open>
  Properties of a response that the statements about \<open>getDirections\<close> refer to: the
  array of steps that a route carries in its first leg, if it carries one; a step whose maneuver can be read
  (neither the step nor its \<open>maneuver\<close> is \<open>null\<close> or missing); a route with a steps
  array of such steps.
\<close>

definition steps_of :: "js_value \<Rightarrow> js_value list option" where
  "steps_of route =
     (case and_then (get_prop route ''legs'') (\<lambda>legs.
           and_then (get_index legs 0) (\<lambda>leg. get_prop leg ''steps'')) of
        Inr (JArr ss) \<Rightarrow> Some ss
      | _ \<Rightarrow> None)"

definition step_readable :: "js_value \<Rightarrow> bool" where
  "step_readable st =
     (case get_prop st ''maneuver'' of
        Inl e \<Rightarrow> False
      | Inr m \<Rightarrow> m \<noteq> JNull \<and> m \<noteq> JUndefined)"

definition route_well_formed :: "js_value \<Rightarrow> bool" where
  "route_well_formed route =
     (case steps_of route of None \<Rightarrow> False | Some ss \<Rightarrow> list_all step_readable ss)"

text \<open>Sample responses: a step, and routes with one step, with no step and without legs.\<close>

definition sample_step :: js_value where
  "sample_step =
     JObj [(''distance'', JNum 120), (''duration'', JNum 30),
           (''maneuver'', JObj [(''instruction'', JStr ''Turn left''), (''type'', JStr ''turn''),
                                (''modifier'', JStr ''left'')])]"

definition sample_route :: "js_value list \<Rightarrow> js_value" where
  "sample_route ss =
     JObj [(''distance'', JNum 120), (''duration'', JNum 30),
           (''geometry'', JObj [(''coordinates'', JArr [])]),
           (''legs'', JArr [JObj [(''steps'', JArr ss)]])]"

definition route_without_legs :: js_value where
  "route_without_legs = JObj [(''distance'', JNum 120), (''duration'', JNum 30)]"

definition response_of :: "js_value list \<Rightarrow> js_value" where
  "response_of rs = JObj [(''routes'', JArr rs), (''code'', JStr ''Ok'')]"

section \<open>Sample sessions\<close>

text \<open>A sequence of events, fired in order, and whether each is enabled when its turn comes.\<close>

fun run :: "event list \<Rightarrow> App \<Rightarrow> App" where
  "run [] app = app"
| "run (e # es) app = run es (fire e app)"

fun run_enabled :: "event list \<Rightarrow> App \<Rightarrow> bool" where
  "run_enabled [] app = True"
| "run_enabled (e # es) app = (enabled e app \<and> run_enabled es (fire e app))"

definition av_paulista :: Coordinates where
  "av_paulista = \<lparr>lng = -46.6333, lat = -23.5505\<rparr>"

definition ibirapuera :: Coordinates where
  "ibirapuera = \<lparr>lng = -46.6722, lat = -23.5629\<rparr>"

text \<open>
  A session opened in the evening with the device position known: both addresses are
  typed in, the search finds one route, and navigation is started.
\<close>

definition evening_events :: "event list" where
  "evening_events =
     [AutoDarkMode 20, CurrentPosition av_paulista, OriginInput ''Av. Paulista'',
      DestinationInput ''Ibirapuera'',
      Search (Resolved (Some av_paulista)) (Resolved (Some ibirapuera))
             (Resolved (response_of [sample_route [sample_step]])),
      StartNavigation]"

definition evening_session :: App where
  "evening_session = run evening_events initial_app"

text \<open>An idle session with both addresses typed in.\<close>

definition typed_session :: App where
  "typed_session = run [OriginInput ''Av. Paulista'', DestinationInput ''Ibirapuera''] initial_app"


section \<open>Rounding to the nearest double\<close>

lemma rhe_of_int: "rhe (of_int z) = z"
  by (simp add: rhe_def)

lemma rhe_error: "\<bar>of_int (rhe y) - y\<bar> \<le> 1 / 2"
proof -
  have "of_int \<lfloor>y\<rfloor> \<le> y" "y < of_int \<lfloor>y\<rfloor> + 1" by linarith+
  then show ?thesis by (auto simp: rhe_def Let_def abs_le_iff)
qed

lemma rhe_lower: "y - 1 / 2 \<le> of_int (rhe y)" and rhe_upper: "of_int (rhe y) \<le> y + 1 / 2"
  using rhe_error[of y] by linarith+

lemma rhe_ge: "of_int z \<le> y \<Longrightarrow> z \<le> rhe y"
proof -
  assume "of_int z \<le> y"
  with rhe_lower[of y] have "(of_int z :: real) < of_int (rhe y + 1)" by simp
  then have "z < rhe y + 1" by (simp only: of_int_less_iff)
  then show ?thesis by simp
qed

lemma rhe_le: "y \<le> of_int z \<Longrightarrow> rhe y \<le> z"
proof -
  assume "y \<le> of_int z"
  with rhe_upper[of y] have "(of_int (rhe y) :: real) < of_int (z + 1)" by simp
  then have "rhe y < z + 1" by (simp only: of_int_less_iff)
  then show ?thesis by simp
qed

lemma rhe_less: "y < of_int z - 1 / 2 \<Longrightarrow> rhe y < z"
proof -
  assume "y < of_int z - 1 / 2"
  with rhe_upper[of y] have "(of_int (rhe y) :: real) < of_int z" by simp
  then show ?thesis by (simp only: of_int_less_iff)
qed

lemma rhe_greater: "of_int z + 1 / 2 < y \<Longrightarrow> z < rhe y"
proof -
  assume "of_int z + 1 / 2 < y"
  with rhe_lower[of y] have "(of_int z :: real) < of_int (rhe y)" by simp
  then show ?thesis by (simp only: of_int_less_iff)
qed

lemma binade_iff:
  assumes "x \<noteq> 0"
  shows "binade x = e \<longleftrightarrow> 2 powi e \<le> \<bar>x\<bar> \<and> \<bar>x\<bar> < 2 powi (e + 1)"
proof -
  have "0 < \<bar>x\<bar>" using assms by simp
  then have "\<lfloor>log 2 \<bar>x\<bar>\<rfloor> = e \<longleftrightarrow> 2 powr (of_int e) \<le> \<bar>x\<bar> \<and> \<bar>x\<bar> < 2 powr (of_int e + 1)"
    using floor_log_eq_powr_iff[of "\<bar>x\<bar>" 2 e] by simp
  moreover have "(2::real) powr (of_int e) = 2 powi e" by (simp add: powr_real_of_int')
  moreover have "(2::real) powr (of_int e + 1) = 2 powi (e + 1)"
    using powr_real_of_int'[of 2 "e + 1"] by simp
  ultimately show ?thesis by (simp add: binade_def)
qed

lemma binade_bounds:
  assumes "x \<noteq> 0"
  shows "2 powi (binade x) \<le> \<bar>x\<bar>" and "\<bar>x\<bar> < 2 powi (binade x + 1)"
  using binade_iff[OF assms, of "binade x"] by simp_all

lemma binade_less:
  assumes "x \<noteq> 0" and "\<bar>x\<bar> < 2 powi p"
  shows "binade x < p"
proof (rule ccontr)
  assume "\<not> binade x < p"
  then have "p \<le> binade x" by simp
  then have "(2::real) powi p \<le> 2 powi (binade x)" by (intro power_int_increasing) simp_all
  with binade_bounds(1)[OF assms(1)] assms(2) show False by linarith
qed

lemma binade_ge:
  assumes "2 powi p \<le> \<bar>x\<bar>"
  shows "p \<le> binade x"
proof (rule ccontr)
  assume "\<not> p \<le> binade x"
  then have "binade x + 1 \<le> p" by simp
  then have "(2::real) powi (binade x + 1) \<le> 2 powi p" by (intro power_int_increasing) simp_all
  moreover have "x \<noteq> 0"
  proof
    assume "x = 0"
    with assms have "(2::real) powi p \<le> 0" by simp
    moreover have "0 < (2::real) powi p" by simp
    ultimately show False by linarith
  qed
  ultimately show False using binade_bounds(2)[of x] assms by linarith
qed

lemma binade_mono:
  assumes "x \<noteq> 0" and "\<bar>x\<bar> \<le> \<bar>y\<bar>"
  shows "binade x \<le> binade y"
  using binade_bounds(1)[OF assms(1)] assms(2) by (intro binade_ge) linarith

lemma ulp_pos: "0 < ulp x"
  by (simp add: ulp_def)

lemma fl_error: "\<bar>fl x - x\<bar> \<le> ulp x / 2"
proof (cases "x = 0")
  case True
  then show ?thesis using ulp_pos[of x] by (simp add: fl_def)
next
  case False
  have "\<bar>of_int (rhe (x / ulp x)) - x / ulp x\<bar> \<le> 1 / 2" by (rule rhe_error)
  then have "\<bar>of_int (rhe (x / ulp x)) - x / ulp x\<bar> * ulp x \<le> 1 / 2 * ulp x"
    using ulp_pos[of x] by (intro mult_right_mono) simp_all
  moreover have "\<bar>of_int (rhe (x / ulp x)) - x / ulp x\<bar> * ulp x = \<bar>fl x - x\<bar>"
  proof -
    have "\<bar>of_int (rhe (x / ulp x)) - x / ulp x\<bar> * ulp x
        = \<bar>(of_int (rhe (x / ulp x)) - x / ulp x) * ulp x\<bar>"
      using ulp_pos[of x] by (simp add: abs_mult)
    also have "(of_int (rhe (x / ulp x)) - x / ulp x) * ulp x = fl x - x"
      using ulp_pos[of x] False by (simp add: fl_def algebra_simps)
    finally show ?thesis .
  qed
  ultimately show ?thesis by simp
qed

lemma fl_multiple: "\<exists>N::int. fl x = of_int N * ulp x"
  by (cases "x = 0") (auto simp: fl_def intro: exI[of _ "rhe (x / ulp x)"] exI[of _ 0])

lemma double_multiple: "fl x = x \<Longrightarrow> \<exists>N::int. x = of_int N * ulp x"
  using fl_multiple[of x] by simp

lemma two_powi_split: "i \<le> j \<Longrightarrow> (2::real) powi j = 2 ^ nat (j - i) * 2 powi i"
proof -
  assume ij: "i \<le> j"
  have "(2::real) powi j = 2 powi ((j - i) + i)" by simp
  also have "\<dots> = 2 powi (j - i) * 2 powi i" by (subst power_int_add) simp_all
  also have "(2::real) powi (j - i) = 2 ^ nat (j - i)" using ij by (simp add: power_int_nonneg_exp)
  finally show ?thesis .
qed

lemma powi_coarsen:
  fixes x :: real
  assumes "i \<le> j" and "x = of_int N * 2 powi j"
  shows "\<exists>N'::int. x = of_int N' * 2 powi i"
proof -
  have "x = of_int (N * 2 ^ nat (j - i)) * 2 powi i"
    using assms(2) two_powi_split[OF assms(1)] by simp
  then show ?thesis by blast
qed

lemma powi_gap:
  fixes x y :: real
  assumes "x = of_int N * 2 powi i" and "y = of_int M * 2 powi i" and "x \<noteq> y"
  shows "2 powi i \<le> \<bar>x - y\<bar>"
proof -
  have "N \<noteq> M" using assms by auto
  then have "1 \<le> \<bar>N - M\<bar>" by simp
  then have "(1::real) \<le> \<bar>of_int (N - M)\<bar>" by (metis of_int_1_le_iff of_int_abs)
  then have "1 * 2 powi i \<le> \<bar>of_int (N - M)\<bar> * (2::real) powi i"
    by (intro mult_right_mono) simp_all
  moreover have "x - y = of_int (N - M) * 2 powi i" using assms(1,2) by (simp add: algebra_simps)
  moreover have "\<bar>of_int (N - M) * (2::real) powi i\<bar> = \<bar>of_int (N - M)\<bar> * 2 powi i"
    by (simp add: abs_mult)
  ultimately show ?thesis by simp
qed

lemma int_multiple: "i \<le> 0 \<Longrightarrow> \<exists>N::int. (of_int z :: real) = of_int N * 2 powi i"
proof -
  assume "i \<le> 0"
  then have "(2::real) powi 0 = 2 ^ nat (0 - i) * 2 powi i" by (intro two_powi_split)
  then have "(of_int z :: real) = of_int (z * 2 ^ nat (- i)) * 2 powi i" by simp
  then show ?thesis by blast
qed

lemma ulp_normal: "2 powi (- 1022) \<le> \<bar>x\<bar> \<Longrightarrow> ulp x = 2 powi (binade x - 52)"
  using binade_ge[of "- 1022" x] by (simp add: ulp_def max_def)

lemma ulp_bound:
  assumes "x \<noteq> 0" and "\<bar>x\<bar> < 2 powi p" and "- 1021 \<le> p"
  shows "ulp x \<le> 2 powi (p - 53)"
proof -
  have "binade x < p" using assms(1,2) by (rule binade_less)
  with assms(3) have "max (binade x) (- 1022) - 52 \<le> p - 53" by simp
  then show ?thesis unfolding ulp_def by (intro power_int_increasing) simp_all
qed

lemma ulp_le_one: "x \<noteq> 0 \<Longrightarrow> \<bar>x\<bar> < 2 ^ 53 \<Longrightarrow> ulp x \<le> 1"
  using ulp_bound[of x 53] by simp

lemma ulp_mono:
  assumes "x \<noteq> 0" and "\<bar>x\<bar> \<le> \<bar>y\<bar>"
  shows "ulp x \<le> ulp y"
proof -
  have "binade x \<le> binade y" using assms by (rule binade_mono)
  then show ?thesis unfolding ulp_def by (intro power_int_increasing) simp_all
qed

lemma ulp_div:
  assumes "x \<noteq> 0" and "2 ^ a \<le> c" and "2 powi (- 1022) \<le> \<bar>x / c\<bar>"
  shows "ulp (x / c) \<le> ulp x / 2 ^ a"
proof -
  have "0 < (2::real) ^ a" by simp
  with assms(2) have c: "0 < c" by linarith
  have q: "x / c \<noteq> 0" using assms(1) c by simp
  have "\<bar>x / c\<bar> = \<bar>x\<bar> / c" using c by simp
  also have "\<dots> \<le> \<bar>x\<bar> / 2 ^ a"
    using assms(2) c by (intro divide_left_mono mult_pos_pos) simp_all
  also have "\<dots> < 2 powi (binade x + 1) / 2 ^ a"
    using binade_bounds(2)[OF assms(1)] by (intro divide_strict_right_mono) simp_all
  also have "\<dots> = 2 powi (binade x + 1 - int a)" by (simp add: power_int_diff)
  finally have "binade (x / c) < binade x + 1 - int a" using q by (intro binade_less)
  moreover have "- 1022 \<le> binade (x / c)" using assms(3) by (rule binade_ge)
  ultimately have "max (binade (x / c)) (- 1022) - 52 \<le> (max (binade x) (- 1022) - 52) - int a"
    by simp
  then have "ulp (x / c) \<le> 2 powi ((max (binade x) (- 1022) - 52) - int a)"
    unfolding ulp_def by (intro power_int_increasing) simp_all
  also have "\<dots> = ulp x / 2 ^ a" by (simp add: ulp_def power_int_diff)
  finally show ?thesis .
qed

lemma floor_fl:
  assumes "0 \<le> q" and "q < 2 ^ 53" and "ulp q / 2 < of_int \<lfloor>q\<rfloor> + 1 - q"
  shows "\<lfloor>fl q\<rfloor> = \<lfloor>q\<rfloor>"
proof (cases "q = 0")
  case True
  then show ?thesis by (simp add: fl_def)
next
  case False
  define u where "u = ulp q"
  define j where "j = max (binade q) (- 1022) - 52"
  have u: "u = 2 powi j" "0 < u" by (simp_all add: u_def j_def ulp_def)
  have "u \<le> 1" using ulp_le_one[OF False] assms(1,2) by (simp add: u_def)
  have j: "j \<le> 0"
  proof (rule ccontr)
    assume "\<not> j \<le> 0"
    then have "1 < (2::real) powi j" by (intro one_less_power_int) simp_all
    with \<open>u \<le> 1\<close> u(1) show False by simp
  qed
  obtain M0 :: int where M0: "(of_int \<lfloor>q\<rfloor> :: real) = of_int M0 * u"
    using int_multiple[OF j, of "\<lfloor>q\<rfloor>"] u(1) by auto
  obtain M1 :: int where M1: "(of_int (\<lfloor>q\<rfloor> + 1) :: real) = of_int M1 * u"
    using int_multiple[OF j, of "\<lfloor>q\<rfloor> + 1"] u(1) by auto
  have f: "fl q = u * of_int (rhe (q / u))" using False by (simp add: fl_def u_def)
  have "of_int M0 \<le> q / u"
  proof -
    have "of_int M0 * u \<le> q" using M0 by (metis of_int_floor_le)
    then show ?thesis using u(2) by (simp add: pos_le_divide_eq)
  qed
  then have "M0 \<le> rhe (q / u)" by (rule rhe_ge)
  then have "of_int M0 * u \<le> of_int (rhe (q / u)) * u"
    using u(2) by (intro mult_right_mono) simp_all
  then have lower: "of_int \<lfloor>q\<rfloor> \<le> fl q" using M0 f by (simp add: mult.commute)
  have "q / u < of_int M1 - 1 / 2"
  proof -
    have "q + u / 2 < of_int M1 * u" using assms(3) M1 by (simp add: u_def)
    then have "(q + u / 2) / u < of_int M1" using u(2) by (simp add: pos_divide_less_eq)
    then show ?thesis using u(2) by (simp add: add_divide_distrib)
  qed
  then have "rhe (q / u) < M1" by (rule rhe_less)
  then have "rhe (q / u) \<le> M1 - 1" by simp
  then have "(of_int (rhe (q / u)) :: real) \<le> of_int (M1 - 1)" by (simp only: of_int_le_iff)
  then have "of_int (rhe (q / u)) * u \<le> of_int (M1 - 1) * u"
    using u(2) by (intro mult_right_mono) simp_all
  then have "fl q \<le> of_int (\<lfloor>q\<rfloor> + 1) - u" using M1 f by (simp add: algebra_simps)
  then have upper: "fl q < of_int \<lfloor>q\<rfloor> + 1" using u(2) by simp
  from lower upper show ?thesis by (simp add: floor_eq_iff)
qed

lemma double_form:
  assumes "fl x = x" and "2 powi (- 1022) \<le> \<bar>x\<bar>"
  shows "\<exists>N::int. x = of_int N * 2 powi (binade x - 52)"
  using double_multiple[OF assms(1)] ulp_normal[OF assms(2)] by simp

lemma quotient_gap:
  fixes x T c :: real
  assumes x: "x = of_int N * 2 powi j"
    and T: "T = of_int M * 2 powi i0"
    and ne: "x \<noteq> T"
    and c: "0 < c" "c < 2 ^ (a + 1)"
    and small: "j \<le> i0 \<Longrightarrow> ulp (x / c) \<le> 2 powi j / 2 ^ a"
    and q: "x / c \<noteq> 0" "\<bar>x / c\<bar> < 2 powi p" "- 1021 \<le> p"
    and large: "2 powi (p - 53) < 2 * 2 powi i0 / c"
  shows "ulp (x / c) / 2 < \<bar>T - x\<bar> / c"
proof (cases "j \<le> i0")
  case True
  obtain M' :: int where "T = of_int M' * 2 powi j" using powi_coarsen[OF True T] by blast
  from powi_gap[OF this x] ne have gap: "2 powi j \<le> \<bar>T - x\<bar>" by auto
  have "ulp (x / c) / 2 \<le> 2 powi j / 2 ^ (a + 1)" using small[OF True] by simp
  also have "\<dots> < 2 powi j / c"
    using c by (intro divide_strict_left_mono mult_pos_pos) simp_all
  also have "\<dots> \<le> \<bar>T - x\<bar> / c" using gap c by (intro divide_right_mono) simp_all
  finally show ?thesis .
next
  case False
  then have "i0 \<le> j" by simp
  from powi_coarsen[OF this x] obtain N' :: int where "x = of_int N' * 2 powi i0" by blast
  from powi_gap[OF T this] ne have gap: "2 powi i0 \<le> \<bar>T - x\<bar>" by auto
  have "ulp (x / c) \<le> 2 powi (p - 53)" using q by (intro ulp_bound)
  with large have "ulp (x / c) < 2 * 2 powi i0 / c" by linarith
  then have "ulp (x / c) / 2 < 2 powi i0 / c" using c by (simp add: field_simps)
  also have "\<dots> \<le> \<bar>T - x\<bar> / c" using gap c by (intro divide_right_mono) simp_all
  finally show ?thesis .
qed

lemma floor_fl_small:
  assumes "0 \<le> q" and "q < 1 / 2"
  shows "\<lfloor>fl q\<rfloor> = \<lfloor>q\<rfloor>"
proof (cases "q = 0")
  case True
  then show ?thesis by (simp add: fl_def)
next
  case False
  have "ulp q \<le> 2 powi (- 1 - 53)"
    using False assms by (intro ulp_bound) simp_all
  then have u: "ulp q \<le> 1 / 2" by simp
  have fq: "\<lfloor>q\<rfloor> = 0" using assms by (simp add: floor_eq_iff)
  show ?thesis
  proof (rule floor_fl)
    show "0 \<le> q" by fact
    show "q < 2 ^ 53" using assms(2) by simp
    show "ulp q / 2 < of_int \<lfloor>q\<rfloor> + 1 - q" using u assms(2) fq by simp
  qed
qed

lemma hours_exact:
  assumes d: "fl s = s" and s0: "0 \<le> s" and sB: "s < 3600 * 2 ^ 46"
  shows "\<lfloor>fl (s / 3600)\<rfloor> = \<lfloor>s / 3600\<rfloor>"
proof (cases "s / 3600 < 1 / 2")
  case True
  with s0 show ?thesis by (intro floor_fl_small) simp_all
next
  case False
  define q where "q = s / 3600"
  define k where "k = \<lfloor>q\<rfloor> + 1"
  have q12: "1 / 2 \<le> q" using False by (simp add: q_def)
  have s1: "1 \<le> s" using q12 by (simp add: q_def)
  have sn: "s \<noteq> 0" using s1 by simp
  have normal: "2 powi (- 1022) \<le> \<bar>s\<bar>"
  proof -
    have "(2::real) powi (- 1022) \<le> 2 powi 0" by (intro power_int_increasing) simp_all
    with s1 show ?thesis by simp
  qed
  obtain N :: int where N: "s = of_int N * 2 powi (binade s - 52)"
    using double_form[OF d normal] by blast
  have T: "3600 * of_int k = of_int (225 * k) * (2::real) powi 4" by simp
  have lt: "s < 3600 * of_int k"
  proof -
    have "q < of_int k" unfolding k_def by linarith
    then show ?thesis by (simp add: q_def)
  qed
  have qn: "2 powi (- 1022) \<le> \<bar>s / 3600\<bar>"
  proof -
    have "(2::real) powi (- 1022) \<le> 2 powi (- 1)" by (intro power_int_increasing) simp_all
    with q12 show ?thesis by (simp add: q_def)
  qed
  have small: "ulp (s / 3600) \<le> 2 powi (binade s - 52) / 2 ^ 11"
    using ulp_div[OF sn _ qn, of 11] ulp_normal[OF normal] by simp
  have "ulp (s / 3600) / 2 < \<bar>3600 * of_int k - s\<bar> / 3600"
  proof (rule quotient_gap[OF N T, where a = 11 and p = 46])
    show "s \<noteq> 3600 * of_int k" using lt by simp
    show "(0::real) < 3600" by simp
    show "(3600::real) < 2 ^ (11 + 1)" by simp
    show "ulp (s / 3600) \<le> 2 powi (binade s - 52) / 2 ^ 11" by (rule small)
    show "s / 3600 \<noteq> 0" using sn by simp
    show "\<bar>s / 3600\<bar> < 2 powi 46" using s0 sB by simp
    show "- 1021 \<le> (46::int)" by simp
    show "(2::real) powi (46 - 53) < 2 * 2 powi 4 / 3600" by simp
  qed
  then have gap: "ulp q / 2 < of_int \<lfloor>q\<rfloor> + 1 - q"
    using lt by (simp add: q_def k_def)
  have "\<lfloor>fl q\<rfloor> = \<lfloor>q\<rfloor>"
  proof (rule floor_fl)
    show "0 \<le> q" using q12 by simp
    show "q < 2 ^ 53" using sB by (simp add: q_def)
    show "ulp q / 2 < of_int \<lfloor>q\<rfloor> + 1 - q" by (rule gap)
  qed
  then show ?thesis by (simp add: q_def)
qed

lemma minutes_exact:
  assumes d: "fl s = s" and s0: "0 \<le> s"
  shows "\<lfloor>fl ((s - 3600 * of_int \<lfloor>s / 3600\<rfloor>) / 60)\<rfloor> = \<lfloor>(s - 3600 * of_int \<lfloor>s / 3600\<rfloor>) / 60\<rfloor>"
proof -
  define h where "h = \<lfloor>s / 3600\<rfloor>"
  define r where "r = s - 3600 * of_int h"
  have "of_int h \<le> s / 3600" "s / 3600 < of_int h + 1" unfolding h_def by linarith+
  then have r0: "0 \<le> r" and r1: "r < 3600" by (simp_all add: r_def)
  have h0: "0 \<le> h" using s0 by (simp add: h_def)
  have rs: "r \<le> s" using h0 by (simp add: r_def)
  have "\<lfloor>fl (r / 60)\<rfloor> = \<lfloor>r / 60\<rfloor>"
  proof (cases "r / 60 < 1 / 2")
    case True
    with r0 show ?thesis by (intro floor_fl_small) simp_all
  next
    case False
    define q where "q = r / 60"
    define k where "k = \<lfloor>q\<rfloor> + 1"
    define j where "j = binade s - 52"
    define jr where "jr = min j 4"
    have q12: "1 / 2 \<le> q" using False by (simp add: q_def)
    have r30: "30 \<le> r" using q12 by (simp add: q_def)
    have rn: "r \<noteq> 0" using r30 by simp
    have sn: "s \<noteq> 0" using r30 rs by simp
    have normal: "2 powi (- 1022) \<le> \<bar>s\<bar>"
    proof -
      have "(2::real) powi (- 1022) \<le> 2 powi 0" by (intro power_int_increasing) simp_all
      with r30 rs show ?thesis by simp
    qed
    obtain N :: int where N: "s = of_int N * 2 powi j"
      using double_form[OF d normal] unfolding j_def by blast
    have "jr \<le> j" by (simp add: jr_def)
    from powi_coarsen[OF this N] obtain N' :: int where N': "s = of_int N' * 2 powi jr" by blast
    have h4: "3600 * of_int h = of_int (225 * h) * (2::real) powi 4" by simp
    have "jr \<le> 4" by (simp add: jr_def)
    from powi_coarsen[OF this h4] obtain H' :: int
      where H': "3600 * of_int h = of_int H' * (2::real) powi jr" by blast
    have R: "r = of_int (N' - H') * 2 powi jr"
      unfolding r_def using N' H' by (simp add: algebra_simps)
    have T: "60 * of_int k = of_int (15 * k) * (2::real) powi 2" by simp
    have lt: "r < 60 * of_int k"
    proof -
      have "q < of_int k" unfolding k_def by linarith
      then show ?thesis by (simp add: q_def)
    qed
    have qn: "2 powi (- 1022) \<le> \<bar>r / 60\<bar>"
    proof -
      have "(2::real) powi (- 1022) \<le> 2 powi (- 1)" by (intro power_int_increasing) simp_all
      with q12 show ?thesis by (simp add: q_def)
    qed
    have small: "ulp (r / 60) \<le> 2 powi jr / 2 ^ 5" if "jr \<le> 2"
    proof -
      from that have jj: "jr = j" by (simp add: jr_def min_def split: if_splits)
      have a1: "ulp (r / 60) \<le> ulp r / 2 ^ 5" using ulp_div[OF rn _ qn, of 5] by simp
      have a2: "ulp r \<le> ulp s" using rn r0 rs by (intro ulp_mono) simp_all
      from a1 a2 have "ulp (r / 60) \<le> ulp s / 2 ^ 5" by simp
      then show ?thesis using ulp_normal[OF normal] by (simp add: jj j_def)
    qed
    have "ulp (r / 60) / 2 < \<bar>60 * of_int k - r\<bar> / 60"
    proof (rule quotient_gap[OF R T, where a = 5 and p = 6])
      show "r \<noteq> 60 * of_int k" using lt by simp
      show "(0::real) < 60" by simp
      show "(60::real) < 2 ^ (5 + 1)" by simp
      show "jr \<le> 2 \<Longrightarrow> ulp (r / 60) \<le> 2 powi jr / 2 ^ 5" by (rule small)
      show "r / 60 \<noteq> 0" using rn by simp
      show "\<bar>r / 60\<bar> < 2 powi 6" using r0 r1 by simp
      show "- 1021 \<le> (6::int)" by simp
      show "(2::real) powi (6 - 53) < 2 * 2 powi 2 / 60" by simp
    qed
    then have gap: "ulp q / 2 < of_int \<lfloor>q\<rfloor> + 1 - q"
      using lt by (simp add: q_def k_def)
    have "\<lfloor>fl q\<rfloor> = \<lfloor>q\<rfloor>"
    proof (rule floor_fl)
      show "0 \<le> q" using q12 by simp
      show "q < 2 ^ 53" using r1 by (simp add: q_def)
      show "ulp q / 2 < of_int \<lfloor>q\<rfloor> + 1 - q" by (rule gap)
    qed
    then show ?thesis by (simp add: q_def)
  qed
  then show ?thesis by (simp add: r_def h_def)
qed

lemma km_rounding:
  assumes d: "fl m = m" and m1: "1000 \<le> m" and mB: "m < 1000 * 2 ^ 45"
  shows "\<bar>of_int \<lfloor>fl (m / 1000) * 10 + 1 / 2\<rfloor> / 10 - m / 1000\<bar> \<le> 1 / 20"
proof -
  define q where "q = m / 1000"
  define X where "X = fl q"
  define n where "n = \<lfloor>X * 10 + 1 / 2\<rfloor>"
  have mn: "m \<noteq> 0" using m1 by simp
  have normal: "2 powi (- 1022) \<le> \<bar>m\<bar>"
  proof -
    have "(2::real) powi (- 1022) \<le> 2 powi 0" by (intro power_int_increasing) simp_all
    with m1 show ?thesis by simp
  qed
  obtain N :: int where N: "m = of_int N * 2 powi (binade m - 52)"
    using double_form[OF d normal] by blast
  have qn: "2 powi (- 1022) \<le> \<bar>m / 1000\<bar>"
  proof -
    have "(2::real) powi (- 1022) \<le> 2 powi 0" by (intro power_int_increasing) simp_all
    with m1 show ?thesis by simp
  qed
  have small: "ulp (m / 1000) \<le> 2 powi (binade m - 52) / 2 ^ 9"
    using ulp_div[OF mn _ qn, of 9] ulp_normal[OF normal] by simp
  have side: "ulp q / 2 < \<bar>(100 * of_int z + 50) - m\<bar> / 1000"
    if "m \<noteq> 100 * of_int z + 50" for z :: int
  proof -
    have T: "100 * of_int z + 50 = of_int (50 * z + 25) * (2::real) powi 1" by simp
    have "ulp (m / 1000) / 2 < \<bar>(100 * of_int z + 50) - m\<bar> / 1000"
    proof (rule quotient_gap[OF N T, where a = 9 and p = 45])
      show "m \<noteq> 100 * of_int z + 50" by (rule that)
      show "(0::real) < 1000" by simp
      show "(1000::real) < 2 ^ (9 + 1)" by simp
      show "ulp (m / 1000) \<le> 2 powi (binade m - 52) / 2 ^ 9" by (rule small)
      show "m / 1000 \<noteq> 0" using mn by simp
      show "\<bar>m / 1000\<bar> < 2 powi 45" using m1 mB by simp
      show "- 1021 \<le> (45::int)" by simp
      show "(2::real) powi (45 - 53) < 2 * 2 powi 1 / 1000" by simp
    qed
    then show ?thesis by (simp add: q_def)
  qed
  have err: "\<bar>X - q\<bar> \<le> ulp q / 2" unfolding X_def by (rule fl_error)
  have n1: "of_int n \<le> X * 10 + 1 / 2" and n2: "X * 10 + 1 / 2 < of_int n + 1"
    unfolding n_def by linarith+
  have upper: "of_int n / 10 - q \<le> 1 / 20"
  proof (rule ccontr)
    assume "\<not> of_int n / 10 - q \<le> 1 / 20"
    then have lt: "m < 100 * of_int (n - 1) + 50" by (simp add: q_def)
    then have "m \<noteq> 100 * of_int (n - 1) + 50" by simp
    from side[OF this] lt have "ulp q / 2 < (100 * of_int (n - 1) + 50 - m) / 1000" by simp
    with err have "X < q + (100 * of_int (n - 1) + 50 - m) / 1000" by linarith
    then have "X * 10 + 1 / 2 < of_int n" by (simp add: q_def add_divide_distrib diff_divide_distrib)
    with n1 show False by simp
  qed
  have lower: "q - of_int n / 10 \<le> 1 / 20"
  proof (rule ccontr)
    assume "\<not> q - of_int n / 10 \<le> 1 / 20"
    then have gt: "100 * of_int n + 50 < m" by (simp add: q_def)
    then have "m \<noteq> 100 * of_int n + 50" by simp
    from side[OF this] gt have "ulp q / 2 < (m - (100 * of_int n + 50)) / 1000" by simp
    with err have "q - (m - (100 * of_int n + 50)) / 1000 < X" by linarith
    then have "of_int n + 1 < X * 10 + 1 / 2" by (simp add: q_def add_divide_distrib diff_divide_distrib)
    with n2 show False by simp
  qed
  from upper lower have "\<bar>of_int n / 10 - q\<bar> \<le> 1 / 20" by linarith
  then show ?thesis unfolding n_def X_def q_def .
qed


text \<open>Evaluating the rounding at a number whose binade is known.\<close>
lemma binade_eqI:
  assumes "2 powi e \<le> \<bar>x\<bar>" and "\<bar>x\<bar> < 2 powi (e + 1)"
  shows "binade x = e"
proof -
  have "0 < (2::real) powi e" by simp
  with assms(1) have "0 < \<bar>x\<bar>" by linarith
  then have "x \<noteq> 0" by simp
  from binade_iff[OF this, of e] assms show ?thesis by simp
qed

lemma fl_eval:
  assumes "2 powi e \<le> \<bar>x\<bar>" and "\<bar>x\<bar> < 2 powi (e + 1)" and "- 1022 \<le> e"
  shows "fl x = 2 powi (e - 52) * of_int (rhe (x / 2 powi (e - 52)))"
proof -
  have b: "binade x = e" using assms(1,2) by (rule binade_eqI)
  have "0 < (2::real) powi e" by simp
  with assms(1) have "0 < \<bar>x\<bar>" by linarith
  then have "x \<noteq> 0" by simp
  then show ?thesis using assms(3) by (simp add: fl_def ulp_def b max_def)
qed

lemma fl_of_int:
  assumes "\<bar>z\<bar> < 2 ^ 53"
  shows "fl (of_int z) = of_int z"
proof (cases "z = 0")
  case True
  then show ?thesis by (simp add: fl_def)
next
  case False
  define x :: real where "x = of_int z"
  have xn: "x \<noteq> 0" using False by (simp add: x_def)
  have "1 \<le> \<bar>z\<bar>" using False by simp
  then have "(1::real) \<le> \<bar>x\<bar>" unfolding x_def by (metis of_int_1_le_iff of_int_abs)
  then have b0: "0 \<le> binade x" using binade_ge[of 0 x] by simp
  have "\<bar>x\<bar> < 2 ^ 53"
  proof -
    have "(of_int \<bar>z\<bar> :: real) < of_int (2 ^ 53)" using assms by (simp only: of_int_less_iff)
    then show ?thesis by (simp add: x_def)
  qed
  then have b1: "binade x < 53" using binade_less[OF xn, of 53] by simp
  define j where "j = binade x - 52"
  have u: "ulp x = 2 powi j" using b0 by (simp add: ulp_def j_def max_def)
  have "j \<le> 0" using b1 by (simp add: j_def)
  from int_multiple[OF this, of z] obtain N :: int where N: "x = of_int N * 2 powi j"
    by (auto simp: x_def)
  then have "x / 2 powi j = of_int N" by simp
  then have "rhe (x / ulp x) = N" by (simp add: u rhe_of_int)
  then have "fl x = 2 powi j * of_int N" using xn by (simp add: fl_def u)
  then have "fl x = x" using N by simp
  then show ?thesis by (simp add: x_def)
qed

lemma is_double_of_int: "\<bar>z\<bar> < 2 ^ 53 \<Longrightarrow> is_double (of_int z)"
proof -
  assume a: "\<bar>z\<bar> < 2 ^ 53"
  then have "(of_int \<bar>z\<bar> :: real) < of_int (2 ^ 53)" by (simp only: of_int_less_iff)
  then have "\<bar>of_int z :: real\<bar> < 2 ^ 53" by simp
  moreover have "(2::real) ^ 53 < 2 ^ 1024" by simp
  ultimately have "\<bar>of_int z :: real\<bar> < 2 ^ 1024" by linarith
  with fl_of_int[OF a] show ?thesis by (simp add: is_double_def)
qed

lemma rhe_eqI:
  assumes "\<bar>of_int n - y\<bar> < 1 / 2"
  shows "rhe y = n"
proof -
  from rhe_error[of y] assms have "\<bar>of_int (rhe y) - (of_int n :: real)\<bar> < 1" by linarith
  then have "\<bar>(of_int (rhe y - n) :: real)\<bar> < 1" by simp
  then have "\<bar>rhe y - n\<bar> < 1" by (metis of_int_abs of_int_less_1_iff)
  then show ?thesis by simp
qed

lemma fl_eqI:
  assumes "2 powi e \<le> \<bar>x\<bar>" and "\<bar>x\<bar> < 2 powi (e + 1)" and "- 1022 \<le> e"
    and "\<bar>of_int n - x / 2 powi (e - 52)\<bar> < 1 / 2"
  shows "fl x = 2 powi (e - 52) * of_int n"
  using fl_eval[OF assms(1-3)] rhe_eqI[OF assms(4)] by simp

lemma fl_nonneg: "0 \<le> x \<Longrightarrow> 0 \<le> fl x"
proof -
  assume "0 \<le> x"
  then have "of_int 0 \<le> x / ulp x" using ulp_pos[of x] by simp
  then have "0 \<le> rhe (x / ulp x)" by (rule rhe_ge)
  then show ?thesis using ulp_pos[of x] by (simp add: fl_def)
qed

lemma fl_upper:
  assumes "x \<noteq> 0" and "\<bar>x\<bar> < 2 ^ 53"
  shows "fl x \<le> x + 1 / 2"
  using fl_error[of x] ulp_le_one[OF assms] by linarith
section \<open>Rendering of numbers\<close>

lemma digits_small: "n < 10 \<Longrightarrow> digits n = [digit_char n]"
  by (simp add: digits.simps)

lemma digits_large: "10 \<le> n \<Longrightarrow> digits n = digits (n div 10) @ [digit_char (n mod 10)]"
  by (subst digits.simps) simp

lemma length_digits_pos: "0 < length (digits n)"
  by (subst digits.simps) simp

lemma digits_0: "digits 0 = ''0''"
  by (simp add: digits_small digit_char_def)

lemma digits_1: "digits (Suc 0) = ''1''"
  by (simp add: digits_small digit_char_def)

lemma digits_2: "digits 2 = ''2''"
  by (simp add: digits_small digit_char_def)

text \<open>A number below \<open>10^k\<close> has at most \<open>k\<close> digits.\<close>

lemma length_digits_le: "0 < k \<Longrightarrow> n < 10 ^ k \<Longrightarrow> length (digits n) \<le> k"
proof (induction n arbitrary: k rule: digits.induct)
  case (1 n)
  show ?case
  proof (cases "n < 10")
    case True
    with 1(2) show ?thesis by (simp add: digits_small)
  next
    case False
    then have k1: "1 < k" using 1(2,3)
      by (metis One_nat_def Suc_lessI power_one_right)
    have "n div 10 < 10 ^ (k - 1)"
    proof -
      have "n < 10 * 10 ^ (k - 1)" using 1(3) k1
        by (metis Suc_diff_1 1(2) power_Suc)
      then show ?thesis by (simp add: less_mult_imp_div_less mult.commute)
    qed
    with 1(1)[of "k - 1"] False k1 have "length (digits (n div 10)) \<le> k - 1" by simp
    with False k1 show ?thesis by (simp add: digits_large)
  qed
qed

text \<open>Below \<open>10^21\<close> an integer is rendered in plain decimal.\<close>

lemma toString_nat_decimal: "n < 10 ^ 21 \<Longrightarrow> toString_nat n = digits n"
  using length_digits_le[of 21 n] by (simp add: toString_nat_def Let_def)

lemma Number_toString_decimal:
  assumes "0 \<le> x" "x < 10 ^ 21"
  shows "Number_toString x = digits (nat x)"
proof -
  from assms have "nat x < 10 ^ 21" by (simp add: nat_less_iff)
  with assms show ?thesis by (simp add: Number_toString_def toString_nat_decimal)
qed

lemma Number_toString_0: "Number_toString 0 = ''0''"
  by (simp add: Number_toString_decimal digits_0)

lemma Number_toString_1: "Number_toString 1 = ''1''"
  by (simp add: Number_toString_decimal digits_1)

lemma Number_toString_2: "Number_toString 2 = ''2''"
  by (simp add: Number_toString_decimal digits_2)

lemma Number_toString_exponent: "Number_toString 1000000000000000000000 = ''1e+21''"
proof -
  have d: "digits 1000000000000000000000 = ''1000000000000000000000''"
    by (simp add: digits.simps digit_char_def)
  have "toString_nat 1000000000000000000000 = ''1e+21''"
    by (simp add: toString_nat_def d digits.simps digit_char_def)
  then show ?thesis by (simp add: Number_toString_def)
qed

lemma fixed_digits_1: "fixed_digits n 1 = digits (n div 10) @ ''.'' @ digits (n mod 10)"
proof (cases "n < 10")
  case True
  then show ?thesis by (simp add: fixed_digits_def digits_small digits_0)
next
  case False
  then have "digits n = digits (n div 10) @ [digit_char (n mod 10)]" by (simp add: digits_large)
  moreover have "0 < length (digits (n div 10))" by (rule length_digits_pos)
  moreover have "digits (n mod 10) = [digit_char (n mod 10)]" by (simp add: digits_small)
  ultimately show ?thesis by (simp add: fixed_digits_def Let_def)
qed

lemma toFixed_1_decimal:
  assumes "0 \<le> x" "x < 10 ^ 21"
  shows "toFixed x 1 =
     digits (nat \<lfloor>x * 10 + 1 / 2\<rfloor> div 10) @ ''.'' @ digits (nat \<lfloor>x * 10 + 1 / 2\<rfloor> mod 10)"
  using assms fixed_digits_1 by (simp add: toFixed_def)


section \<open>Duration strings\<close>

lemma js_rem_nonneg: "0 \<le> x \<Longrightarrow> js_rem x 3600 = x - 3600 * of_int \<lfloor>x / 3600\<rfloor>"
  by (simp add: js_rem_def)

text \<open>The minutes left after the whole hours are the whole minutes modulo 60.\<close>

lemma minutes_mod:
  fixes s :: real
  shows "\<lfloor>(s - 3600 * of_int \<lfloor>s / 3600\<rfloor>) / 60\<rfloor> = \<lfloor>s / 60\<rfloor> mod 60"
proof -
  have h: "\<lfloor>s / 3600\<rfloor> = \<lfloor>s / 60\<rfloor> div 60"
    using floor_divide_real_eq_div[of 60 "s / 60"] by simp
  have "(s - 3600 * of_int \<lfloor>s / 3600\<rfloor>) / 60 = s / 60 - of_int (60 * \<lfloor>s / 3600\<rfloor>)"
    by simp
  then have "\<lfloor>(s - 3600 * of_int \<lfloor>s / 3600\<rfloor>) / 60\<rfloor> = \<lfloor>s / 60\<rfloor> - 60 * \<lfloor>s / 3600\<rfloor>"
    by (simp only: floor_diff_of_int)
  also have "\<dots> = \<lfloor>s / 60\<rfloor> mod 60"
    unfolding h by (simp add: minus_mult_div_eq_mod mult.commute)
  finally show ?thesis .
qed

text \<open>
  What \<open>formatDuration\<close> computes from a double of seconds: the two quotients are
  rounded, the remainder is exact.
\<close>

lemma formatDuration_unfold:
  assumes "0 \<le> s"
  shows "formatDuration s =
     (if 0 < \<lfloor>fl (s / 3600)\<rfloor>
      then Number_toString \<lfloor>fl (s / 3600)\<rfloor> @ ''h '' @
           Number_toString \<lfloor>fl ((s - 3600 * of_int \<lfloor>s / 3600\<rfloor>) / 60)\<rfloor> @ ''min''
      else Number_toString \<lfloor>fl ((s - 3600 * of_int \<lfloor>s / 3600\<rfloor>) / 60)\<rfloor> @ '' min'')"
  using assms by (simp add: formatDuration_def Math_floor_def js_rem_nonneg Let_def)

lemma formatDuration_general:
  assumes "is_double s" and "0 \<le> s" and "s < 3600 * 2 ^ 46"
  shows "formatDuration s =
      (if 3600 \<le> s
       then digits (nat \<lfloor>s / 3600\<rfloor>) @ ''h '' @ digits (nat (\<lfloor>s / 60\<rfloor> mod 60)) @ ''min''
       else digits (nat \<lfloor>s / 60\<rfloor>) @ '' min'')"
proof -
  from assms(1) have d: "fl s = s" by (simp add: is_double_def)
  have h: "\<lfloor>fl (s / 3600)\<rfloor> = \<lfloor>s / 3600\<rfloor>" using d assms(2,3) by (rule hours_exact)
  have m: "\<lfloor>fl ((s - 3600 * of_int \<lfloor>s / 3600\<rfloor>) / 60)\<rfloor> = \<lfloor>s / 60\<rfloor> mod 60"
    using minutes_exact[OF d assms(2)] by (simp only: minutes_mod)
  have pos: "(0 < \<lfloor>s / 3600\<rfloor>) = (3600 \<le> s)"
    by (simp add: floor_less_iff less_floor_iff le_divide_eq)
  have hn: "0 \<le> \<lfloor>s / 3600\<rfloor>" using assms(2) by simp
  have "s / 3600 < 2 ^ 46" using assms(3) by simp
  then have "\<lfloor>s / 3600\<rfloor> < 2 ^ 46" by (simp add: floor_less_iff)
  then have hb: "\<lfloor>s / 3600\<rfloor> < 10 ^ 21" by simp
  have mn: "0 \<le> \<lfloor>s / 60\<rfloor> mod 60" by simp
  have "\<lfloor>s / 60\<rfloor> mod 60 < 60" by simp
  moreover have "(60::int) < 10 ^ 21" by simp
  ultimately have mb: "\<lfloor>s / 60\<rfloor> mod 60 < 10 ^ 21" by (rule less_trans)
  have H: "Number_toString \<lfloor>s / 3600\<rfloor> = digits (nat \<lfloor>s / 3600\<rfloor>)"
    using hn hb by (rule Number_toString_decimal)
  have M: "Number_toString (\<lfloor>s / 60\<rfloor> mod 60) = digits (nat (\<lfloor>s / 60\<rfloor> mod 60))"
    using mn mb by (rule Number_toString_decimal)
  have f: "formatDuration s =
     (if 3600 \<le> s
      then digits (nat \<lfloor>s / 3600\<rfloor>) @ ''h '' @ digits (nat (\<lfloor>s / 60\<rfloor> mod 60)) @ ''min''
      else digits (nat (\<lfloor>s / 60\<rfloor> mod 60)) @ '' min'')"
    unfolding formatDuration_unfold[OF assms(2)] h m pos H M ..
  show ?thesis
  proof (cases "3600 \<le> s")
    case True
    with f show ?thesis by simp
  next
    case False
    then have "\<lfloor>s / 60\<rfloor> < 60" by (simp add: floor_less_iff)
    moreover have "0 \<le> \<lfloor>s / 60\<rfloor>" using assms(2) by simp
    ultimately have "\<lfloor>s / 60\<rfloor> mod 60 = \<lfloor>s / 60\<rfloor>" by simp
    with False f show ?thesis by simp
  qed
qed

lemma double_253327479039593984: "is_double 253327479039593984"
proof -
  have "fl 253327479039593984 = 2 powi (57 - 52) * of_int 7916483719987312"
    by (rule fl_eqI) simp_all
  then have "fl 253327479039593984 = 253327479039593984" by simp
  moreover have "\<bar>253327479039593984 :: real\<bar> < 2 ^ 1024" by simp
  ultimately show ?thesis by (simp only: is_double_def simp_thms)
qed

lemma fl_hours_253327479039593984: "fl (253327479039593984 / 3600) = 70368744177665"
proof -
  have "fl (253327479039593984 / 3600) = 2 powi (46 - 52) * of_int 4503599627370560"
    by (rule fl_eqI) simp_all
  then show ?thesis by simp
qed

lemma formatDuration_253327479039593984:
  "formatDuration 253327479039593984 = ''70368744177665h 59min''"
proof -
  have d: "fl 253327479039593984 = 253327479039593984"
    using double_253327479039593984 by (simp add: is_double_def)
  have "\<lfloor>fl ((253327479039593984 - 3600 * of_int \<lfloor>253327479039593984 / 3600 :: real\<rfloor>) / 60)\<rfloor>
      = \<lfloor>(253327479039593984 - 3600 * of_int \<lfloor>253327479039593984 / 3600 :: real\<rfloor>) / 60 :: real\<rfloor>"
    by (rule minutes_exact[OF d]) simp
  then have m: "\<lfloor>fl ((253327479039593984 - 3600 * of_int \<lfloor>253327479039593984 / 3600 :: real\<rfloor>) / 60)\<rfloor> = 59"
    by (simp only: minutes_mod) simp
  have "formatDuration 253327479039593984 = Number_toString 70368744177665 @ ''h '' @ Number_toString 59 @ ''min''"
    by (simp only: formatDuration_unfold fl_hours_253327479039593984 m) simp
  moreover have "Number_toString 70368744177665 = ''70368744177665''"
    by (simp add: Number_toString_decimal digits.simps digit_char_def)
  moreover have "Number_toString 59 = ''59''"
    by (simp add: Number_toString_decimal digits.simps digit_char_def)
  ultimately show ?thesis by simp
qed

text \<open>
  Claim C5, as stated: for every non-negative number of seconds \<open>formatDuration\<close>
  renders the whole hours. At the double 253327479039593984 it does not: the quotient
  by 3600 is 70368744177664.9955..., the division rounds it up to 70368744177665, and
  the hours printed are one more than the whole hours.
\<close>

theorem formatDuration_rounding_counterexample:
  "is_double 253327479039593984
   \<and> formatDuration 253327479039593984 = ''70368744177665h 59min''
   \<and> \<lfloor>253327479039593984 / 3600 :: real\<rfloor> = 70368744177664"
  using double_253327479039593984 formatDuration_253327479039593984 by simp

text \<open>
  Claim C5, amended. For every double of seconds from 0 and below \<open>3600 * 2^46\<close>,
  \<open>formatDuration\<close> renders the whole hours and the remaining whole minutes in plain
  decimal: from one hour on as the hours, \<open>h\<close>, a space, the minutes and \<open>min\<close>; below
  one hour as the minutes, a space and \<open>min\<close>. So 59 seconds give \<open>0 min\<close>, 90 seconds
  \<open>1 min\<close> and 3661 seconds \<open>1h 1min\<close>.
\<close>

theorem formatDuration_hours_minutes:
  "(\<forall>s. is_double s \<and> 0 \<le> s \<and> s < 3600 * 2 ^ 46 \<longrightarrow> formatDuration s =
      (if 3600 \<le> s
       then digits (nat \<lfloor>s / 3600\<rfloor>) @ ''h '' @ digits (nat (\<lfloor>s / 60\<rfloor> mod 60)) @ ''min''
       else digits (nat \<lfloor>s / 60\<rfloor>) @ '' min''))
   \<and> formatDuration 59 = ''0 min''
   \<and> formatDuration 90 = ''1 min''
   \<and> formatDuration 3661 = ''1h 1min''"
proof -
  have "formatDuration 59 = ''0 min''"
    using formatDuration_general[of 59] is_double_of_int[of 59] by (simp add: digits_0)
  moreover have "formatDuration 90 = ''1 min''"
    using formatDuration_general[of 90] is_double_of_int[of 90] by (simp add: digits_1)
  moreover have "formatDuration 3661 = ''1h 1min''"
    using formatDuration_general[of 3661] is_double_of_int[of 3661] by (simp add: digits_1)
  ultimately show ?thesis by (simp add: formatDuration_general)
qed

theorem formatDuration_hours_minutes_witness:
  "is_double 7325 \<and> (0::real) \<le> 7325 \<and> (7325::real) < 3600 * 2 ^ 46
   \<and> formatDuration 7325 = ''2h 2min''"
proof -
  have a: "is_double 7325" using is_double_of_int[of 7325] by simp
  have b: "(0::real) \<le> 7325" by simp
  have c: "(7325::real) < 3600 * 2 ^ 46" by simp
  from formatDuration_hours_minutes
  have "\<forall>s. is_double s \<and> 0 \<le> s \<and> s < 3600 * 2 ^ 46 \<longrightarrow> formatDuration s =
      (if 3600 \<le> s
       then digits (nat \<lfloor>s / 3600\<rfloor>) @ ''h '' @ digits (nat (\<lfloor>s / 60\<rfloor> mod 60)) @ ''min''
       else digits (nat \<lfloor>s / 60\<rfloor>) @ '' min'')" by (rule conjunct1)
  with a b c have "formatDuration 7325 =
      (if (3600::real) \<le> 7325
       then digits (nat \<lfloor>(7325::real) / 3600\<rfloor>) @ ''h '' @
            digits (nat (\<lfloor>(7325::real) / 60\<rfloor> mod 60)) @ ''min''
       else digits (nat \<lfloor>(7325::real) / 60\<rfloor>) @ '' min'')" by blast
  then have "formatDuration 7325 = ''2h 2min''" by (simp add: digits_2)
  with a b c show ?thesis by blast
qed

section \<open>Distance strings\<close>

lemma formatDistance_metres:
  assumes "0 \<le> m" "m < 1000"
  shows "formatDistance m = digits (nat \<lfloor>m + 1 / 2\<rfloor>) @ '' m''"
proof -
  have "0 \<le> \<lfloor>m + 1 / 2\<rfloor>" using assms by simp
  moreover have "\<lfloor>m + 1 / 2\<rfloor> < 10 ^ 21" using assms by (simp add: floor_less_iff)
  ultimately show ?thesis using assms
    by (simp add: formatDistance_def Math_round_def Number_toString_decimal)
qed

text \<open>
  From 1000 metres on the quotient by 1000 is rounded to a double before \<open>toFixed\<close>
  reads it.
\<close>

lemma formatDistance_kilometres:
  assumes "1000 \<le> m" "m < 1000 * 2 ^ 45"
  shows "formatDistance m =
     digits (nat \<lfloor>fl (m / 1000) * 10 + 1 / 2\<rfloor> div 10) @ ''.'' @
     digits (nat \<lfloor>fl (m / 1000) * 10 + 1 / 2\<rfloor> mod 10) @ '' km''"
proof -
  have q: "m / 1000 \<noteq> 0" "\<bar>m / 1000\<bar> < 2 ^ 53" using assms by simp_all
  have "0 \<le> m / 1000" using assms by simp
  then have a: "0 \<le> fl (m / 1000)" by (rule fl_nonneg)
  have "fl (m / 1000) \<le> m / 1000 + 1 / 2" using q by (rule fl_upper)
  moreover have "m / 1000 < 2 ^ 45" using assms by simp
  ultimately have "fl (m / 1000) < 2 ^ 45 + 1" by linarith
  then have b: "fl (m / 1000) < 10 ^ 21" by simp
  from toFixed_1_decimal[OF a b] assms show ?thesis
    by (simp add: formatDistance_def)
qed

lemma nearest_unit:
  fixes m :: real
  assumes "0 \<le> m"
  shows "\<bar>real (nat \<lfloor>m + 1 / 2\<rfloor>) - m\<bar> \<le> 1 / 2"
proof -
  define k where "k = \<lfloor>m + 1 / 2\<rfloor>"
  have nn: "0 \<le> k" using assms by (simp add: k_def)
  have lo: "of_int k \<le> m + 1 / 2" unfolding k_def by (rule of_int_floor_le)
  have hi: "m + 1 / 2 < of_int k + 1" unfolding k_def by linarith
  have "\<bar>real_of_int k - m\<bar> \<le> 1 / 2"
    using lo hi by (intro abs_leI; linarith)
  then show ?thesis using nn by (simp add: k_def)
qed

lemma nearest_tenth:
  assumes "is_double m" "1000 \<le> m" "m < 1000 * 2 ^ 45"
  shows "\<bar>real (nat \<lfloor>fl (m / 1000) * 10 + 1 / 2\<rfloor>) / 10 - m / 1000\<bar> \<le> 1 / 20"
proof -
  from assms(1) have d: "fl m = m" by (simp add: is_double_def)
  have "0 \<le> m / 1000" using assms by simp
  then have "0 \<le> fl (m / 1000)" by (rule fl_nonneg)
  then have "0 \<le> \<lfloor>fl (m / 1000) * 10 + 1 / 2\<rfloor>" by simp
  then have "real (nat \<lfloor>fl (m / 1000) * 10 + 1 / 2\<rfloor>) = of_int \<lfloor>fl (m / 1000) * 10 + 1 / 2\<rfloor>"
    by simp
  with km_rounding[OF d assms(2,3)] show ?thesis by simp
qed

text \<open>A rendered tenth within a twentieth of the kilometres is the only one there, unless the
  kilometres lie halfway between two tenths.\<close>

lemma kilometres_value:
  assumes "is_double m" "1000 \<le> m" "m < 1000 * 2 ^ 45"
    and "real n - 1 / 2 < m / 100" "m / 100 < real n + 1 / 2"
  shows "formatDistance m = digits (n div 10) @ ''.'' @ digits (n mod 10) @ '' km''"
proof -
  define k where "k = nat \<lfloor>fl (m / 1000) * 10 + 1 / 2\<rfloor>"
  have "\<bar>real k / 10 - m / 1000\<bar> \<le> 1 / 20"
    unfolding k_def using assms(1-3) by (rule nearest_tenth)
  then have "\<bar>real k - m / 100\<bar> \<le> 1 / 2" by (simp add: field_simps)
  with assms(4,5) have "real k < real n + 1" "real n < real k + 1" by linarith+
  then have "k < n + 1" "n < k + 1" by (simp_all only: of_nat_less_iff flip: of_nat_Suc Suc_eq_plus1)
  then have "k = n" by simp
  with formatDistance_kilometres[OF assms(2,3)] show ?thesis by (simp add: k_def)
qed

lemma formatDistance_999: "formatDistance 999 = ''999 m''"
  by (simp add: formatDistance_metres digits.simps digit_char_def)

lemma formatDistance_1000: "formatDistance 1000 = ''1.0 km''"
  using kilometres_value[of 1000 10] is_double_of_int[of 1000]
  by (simp add: digits.simps digit_char_def)

lemma formatDistance_12345: "formatDistance 12345 = ''12.3 km''"
  using kilometres_value[of 12345 123] is_double_of_int[of 12345]
  by (simp add: digits.simps digit_char_def)

lemma double_35184372088832152: "is_double 35184372088832152"
proof -
  have "fl 35184372088832152 = 2 powi (54 - 52) * of_int 8796093022208038"
    by (rule fl_eqI) simp_all
  then have "fl 35184372088832152 = 35184372088832152" by simp
  moreover have "\<bar>35184372088832152 :: real\<bar> < 2 ^ 1024" by simp
  ultimately show ?thesis by (simp only: is_double_def simp_thms)
qed

lemma fl_kilometres_35184372088832152:
  "fl (35184372088832152 / 1000) = 4503599627370515 / 128"
proof -
  have "fl (35184372088832152 / 1000) = 2 powi (45 - 52) * of_int 4503599627370515"
    by (rule fl_eqI) simp_all
  then show ?thesis by simp
qed

lemma formatDistance_35184372088832152:
  "formatDistance 35184372088832152 = ''35184372088832.1 km''"
proof -
  have n: "nat \<lfloor>(4503599627370515 / 128 :: real) * 10 + 1 / 2\<rfloor> = 351843720888321" by simp
  have "toFixed (4503599627370515 / 128) 1 =
      digits (nat \<lfloor>(4503599627370515 / 128 :: real) * 10 + 1 / 2\<rfloor> div 10) @ ''.'' @
      digits (nat \<lfloor>(4503599627370515 / 128 :: real) * 10 + 1 / 2\<rfloor> mod 10)"
    by (rule toFixed_1_decimal) simp_all
  then have "toFixed (4503599627370515 / 128) 1 =
      digits (351843720888321 div 10) @ ''.'' @ digits (351843720888321 mod 10)"
    by (simp only: n)
  then have "toFixed (4503599627370515 / 128) 1 = ''35184372088832.1''"
    by (simp add: digits.simps digit_char_def)
  moreover have "formatDistance 35184372088832152 = toFixed (fl (35184372088832152 / 1000)) 1 @ '' km''"
    unfolding formatDistance_def by (simp del: divide_numeral_1 times_divide_eq_left)
  ultimately show ?thesis
    by (simp only: fl_kilometres_35184372088832152) simp
qed

text \<open>
  Claim C6, as stated: for every non-negative number of metres from 1000 on,
  \<open>formatDistance\<close> gives the kilometres rounded to one decimal with the unit \<open>km\<close>.
  At the double 35184372088832152 it does not: the kilometres are 35184372088832.152,
  the division by 1000 rounds them to the double 35184372088832.1484375, and
  \<open>toFixed\<close> prints 35184372088832.1, which is more than a twentieth away from the
  kilometres (the nearest tenth is 35184372088832.2).
\<close>

theorem formatDistance_rounding_counterexample:
  "is_double 35184372088832152
   \<and> formatDistance 35184372088832152 = ''35184372088832.1 km''
   \<and> (1 / 20 :: real) < \<bar>351843720888321 / 10 - 35184372088832152 / 1000\<bar>"
  using double_35184372088832152 formatDistance_35184372088832152 by simp

text \<open>
  Claim C6, amended. Below 1000 metres \<open>formatDistance\<close> gives the decimal digits of an
  integer within half a metre of the input, with the unit \<open>m\<close>. For a double of metres
  from 1000 and below \<open>1000 * 2^45\<close> it gives the kilometres with exactly one decimal
  place, a multiple of a tenth within a twentieth of the input's kilometres, with the
  unit \<open>km\<close>. 999 metres give \<open>999 m\<close>, 1000 metres \<open>1.0 km\<close> and 12345 metres \<open>12.3 km\<close>.
\<close>

theorem formatDistance_units:
  "(0 \<le> m \<and> m < 1000 \<longrightarrow>
      (\<exists>k::nat. formatDistance m = digits k @ '' m'' \<and> \<bar>real k - m\<bar> \<le> 1 / 2))
   \<and> (is_double m \<and> 1000 \<le> m \<and> m < 1000 * 2 ^ 45 \<longrightarrow>
      (\<exists>n::nat. formatDistance m = digits (n div 10) @ ''.'' @ digits (n mod 10) @ '' km''
         \<and> \<bar>real n / 10 - m / 1000\<bar> \<le> 1 / 20))
   \<and> formatDistance 999 = ''999 m''
   \<and> formatDistance 1000 = ''1.0 km''
   \<and> formatDistance 12345 = ''12.3 km''"
proof -
  have "\<exists>k::nat. formatDistance m = digits k @ '' m'' \<and> \<bar>real k - m\<bar> \<le> 1 / 2"
    if "0 \<le> m" "m < 1000"
    using formatDistance_metres[OF that] nearest_unit[OF that(1)] by blast
  moreover
  have "\<exists>n::nat. formatDistance m = digits (n div 10) @ ''.'' @ digits (n mod 10) @ '' km''
         \<and> \<bar>real n / 10 - m / 1000\<bar> \<le> 1 / 20"
    if "is_double m" "1000 \<le> m" "m < 1000 * 2 ^ 45"
    using formatDistance_kilometres[OF that(2,3)] nearest_tenth[OF that] by blast
  ultimately show ?thesis
    using formatDistance_999 formatDistance_1000 formatDistance_12345 by blast
qed

theorem formatDistance_units_witness:
  "(0::real) \<le> 250 \<and> (250::real) < 1000
   \<and> (\<exists>k::nat. formatDistance 250 = digits k @ '' m'' \<and> \<bar>real k - 250\<bar> \<le> 1 / 2)
   \<and> is_double 1150 \<and> (1000::real) \<le> 1150 \<and> (1150::real) < 1000 * 2 ^ 45
   \<and> (\<exists>n::nat. formatDistance 1150 = digits (n div 10) @ ''.'' @ digits (n mod 10) @ '' km''
         \<and> \<bar>real n / 10 - 1150 / 1000\<bar> \<le> 1 / 20)"
  using formatDistance_units[of 250] formatDistance_units[of 1150] is_double_of_int[of 1150]
  by simp

text \<open>
  Claim C10. For every number of metres from 999.5 and below 1000, \<open>formatDistance\<close>
  returns \<open>1000 m\<close>: the branch below one kilometre rounds to the nearest integer, so
  the rendered count reaches 1000 although the input is below the threshold of the
  kilometre branch.
\<close>

theorem formatDistance_rounds_up_to_1000:
  assumes "999.5 \<le> m" "m < 1000"
  shows "formatDistance m = ''1000 m''"
proof -
  from assms have "\<lfloor>m + 1 / 2\<rfloor> = 1000" by (simp add: floor_eq_iff)
  with assms show ?thesis
    by (simp add: formatDistance_metres digits.simps digit_char_def)
qed

theorem formatDistance_rounds_up_to_1000_witness:
  "(999.5::real) \<le> 999.5 \<and> (999.5::real) < 1000 \<and> formatDistance 999.5 = ''1000 m''"
  using formatDistance_rounds_up_to_1000[of "999.5"] by simp
section \<open>Great-circle distance\<close>

lemma sin_half_swap:
  fixes x y c :: real
  shows "sin ((x - y) * c / 180 / 2) * sin ((x - y) * c / 180 / 2) =
         sin ((y - x) * c / 180 / 2) * sin ((y - x) * c / 180 / 2)"
proof -
  have "(x - y) * c / 180 / 2 = - ((y - x) * c / 180 / 2)" by (simp add: field_simps)
  then show ?thesis by (simp only: sin_minus minus_mult_minus)
qed

lemma haversine_a_sym: "haversine_a c1 c2 = haversine_a c2 c1"
  unfolding haversine_a_def Let_def
  using sin_half_swap[of "lat c2" "lat c1" pi] sin_half_swap[of "lng c2" "lng c1" pi]
  by (simp add: mult.commute)

lemma haversine_form:
  fixes p q l :: real
  defines "a \<equiv> sin ((q - p) / 2) * sin ((q - p) / 2) + cos p * cos q * sin l * sin l"
  shows "2 * a = (1 - sin l * sin l) * (1 - cos (q - p)) + sin l * sin l * (1 + cos (q + p))"
    and "2 - 2 * a = (1 - sin l * sin l) * (1 + cos (q - p)) + sin l * sin l * (1 - cos (q + p))"
proof -
  have "2 * ((q - p) / 2) = q - p" by simp
  then have "cos (q - p) = cos (2 * ((q - p) / 2))" by (simp only:)
  also have "\<dots> = 1 - 2 * (sin ((q - p) / 2))\<^sup>2" by (rule cos_double_sin)
  finally have s: "2 * (sin ((q - p) / 2) * sin ((q - p) / 2)) = 1 - cos (q - p)"
    by (simp add: power2_eq_square)
  have pq: "2 * (cos p * cos q) = cos (q - p) + cos (q + p)"
    by (simp add: cos_add cos_diff)
  have "2 * a = 2 * (sin ((q - p) / 2) * sin ((q - p) / 2)) + 2 * (cos p * cos q) * (sin l * sin l)"
    unfolding a_def by (simp add: algebra_simps)
  also have "\<dots> = (1 - cos (q - p)) + (cos (q - p) + cos (q + p)) * (sin l * sin l)"
    by (simp only: s pq)
  finally have e: "2 * a = (1 - cos (q - p)) + (cos (q - p) + cos (q + p)) * (sin l * sin l)" .
  show "2 * a = (1 - sin l * sin l) * (1 - cos (q - p)) + sin l * sin l * (1 + cos (q + p))"
    unfolding e by (simp add: algebra_simps)
  show "2 - 2 * a = (1 - sin l * sin l) * (1 + cos (q - p)) + sin l * sin l * (1 - cos (q + p))"
    unfolding e by (simp add: algebra_simps)
qed

lemma sin_sq_range: "0 \<le> sin (l::real) * sin l" "sin (l::real) * sin l \<le> 1"
proof -
  show "0 \<le> sin l * sin l" by simp
  have "sin l * sin l + cos l * cos l = 1" using sin_cos_squared_add[of l] by (simp add: power2_eq_square)
  moreover have "0 \<le> cos l * cos l" by simp
  ultimately show "sin l * sin l \<le> 1" by linarith
qed

lemma haversine_range:
  fixes p q l :: real
  defines "a \<equiv> sin ((q - p) / 2) * sin ((q - p) / 2) + cos p * cos q * sin l * sin l"
  shows "0 \<le> a" and "a \<le> 1"
proof -
  let ?t = "sin l * sin l"
  have t: "0 \<le> ?t" "0 \<le> 1 - ?t" using sin_sq_range[of l] by simp_all
  have c1: "0 \<le> 1 - cos (q - p)" "0 \<le> 1 + cos (q - p)"
    using cos_le_one[of "q - p"] cos_ge_minus_one[of "q - p"] by linarith+
  have c2: "0 \<le> 1 + cos (q + p)" "0 \<le> 1 - cos (q + p)"
    using cos_le_one[of "q + p"] cos_ge_minus_one[of "q + p"] by linarith+
  have "0 \<le> (1 - ?t) * (1 - cos (q - p))" using t(2) c1(1) by (rule mult_nonneg_nonneg)
  moreover have "0 \<le> ?t * (1 + cos (q + p))" using t(1) c2(1) by (rule mult_nonneg_nonneg)
  ultimately have "0 \<le> (1 - ?t) * (1 - cos (q - p)) + ?t * (1 + cos (q + p))"
    by (rule add_nonneg_nonneg)
  then have "0 \<le> 2 * a" using haversine_form(1)[of q p l] by (simp add: a_def)
  then show "0 \<le> a" by simp
  have "0 \<le> (1 - ?t) * (1 + cos (q - p))" using t(2) c1(2) by (rule mult_nonneg_nonneg)
  moreover have "0 \<le> ?t * (1 - cos (q + p))" using t(1) c2(2) by (rule mult_nonneg_nonneg)
  ultimately have "0 \<le> (1 - ?t) * (1 + cos (q - p)) + ?t * (1 - cos (q + p))"
    by (rule add_nonneg_nonneg)
  then have "0 \<le> 2 - 2 * a" using haversine_form(2)[of q p l] by (simp add: a_def)
  then show "a \<le> 1" by simp
qed

text \<open>The haversine lies between 0 and 1, so both square roots have a value.\<close>

lemma haversine_a_range: "0 \<le> haversine_a c1 c2" "haversine_a c1 c2 \<le> 1"
proof -
  have e: "haversine_a c1 c2 =
      sin ((lat c2 * pi / 180 - lat c1 * pi / 180) / 2) * sin ((lat c2 * pi / 180 - lat c1 * pi / 180) / 2)
      + cos (lat c1 * pi / 180) * cos (lat c2 * pi / 180)
        * sin ((lng c2 - lng c1) * pi / 180 / 2) * sin ((lng c2 - lng c1) * pi / 180 / 2)"
    by (simp add: haversine_a_def Let_def diff_divide_distrib left_diff_distrib)
  show "0 \<le> haversine_a c1 c2" unfolding e by (rule haversine_range(1))
  show "haversine_a c1 c2 \<le> 1" unfolding e by (rule haversine_range(2))
qed

lemma calculateDistance_value:
  "calculateDistance c1 c2 =
     Some (6371000 * (2 * Math_atan2 (sqrt (haversine_a c1 c2)) (sqrt (1 - haversine_a c1 c2))))"
  using haversine_a_range[of c1 c2] by (simp add: calculateDistance_def Math_sqrt_def Let_def)


lemma haversine_a_same: "haversine_a a a = 0"
  by (simp add: haversine_a_def)

text \<open>
  Claim C8. For every coordinate \<open>a\<close>, the distance from \<open>a\<close> to \<open>a\<close> is 0.
\<close>

theorem calculateDistance_same_point: "calculateDistance a a = Some 0"
  by (simp add: calculateDistance_value haversine_a_same Math_atan2_def)

section \<open>Directions responses\<close>

lemma and_then_Inr [simp]: "and_then (Inr v) f = f v"
  by (simp add: and_then_def)

lemma and_then_Inl [simp]: "and_then (Inl e) f = Inl e"
  by (simp add: and_then_def)

lemma error_is_TypeError [simp]: "((e::error) = TypeError) = True" "(TypeError = e) = True"
  by (cases e; simp)+

lemma get_prop_fails: "(get_prop v k = Inl e) = (v = JNull \<or> v = JUndefined)"
  by (cases v) auto

lemma get_prop_value: "v \<noteq> JNull \<Longrightarrow> v \<noteq> JUndefined \<Longrightarrow> \<exists>w. get_prop v k = Inr w"
  by (cases v) auto

lemma mapStep_readable:
  assumes "step_readable st"
  shows "\<exists>s. mapStep st k = Inr s"
proof -
  from assms obtain m where m: "get_prop st ''maneuver'' = Inr m" "m \<noteq> JNull" "m \<noteq> JUndefined"
    by (auto simp: step_readable_def split: sum.splits)
  then have st: "st \<noteq> JNull" "st \<noteq> JUndefined" by auto
  obtain d where d: "get_prop st ''distance'' = Inr d" using get_prop_value[OF st] by blast
  obtain u where u: "get_prop st ''duration'' = Inr u" using get_prop_value[OF st] by blast
  obtain i where i: "get_prop m ''instruction'' = Inr i" using get_prop_value[OF m(2,3)] by blast
  obtain t where t: "get_prop m ''type'' = Inr t" using get_prop_value[OF m(2,3)] by blast
  obtain o1 where o1: "get_prop m ''modifier'' = Inr o1" using get_prop_value[OF m(2,3)] by blast
  show ?thesis by (simp add: mapStep_def m d u i t o1)
qed

lemma mapStep_unreadable:
  assumes "\<not> step_readable st"
  shows "mapStep st k = Inl TypeError"
proof (cases "get_prop st ''maneuver''")
  case (Inl e)
  then show ?thesis by (simp add: mapStep_def)
next
  case (Inr m)
  with assms have "m = JNull \<or> m = JUndefined" by (simp add: step_readable_def)
  then have "get_prop m ''instruction'' = Inl TypeError" by auto
  with Inr show ?thesis by (simp add: mapStep_def)
qed

lemma map_index_length: "map_index f i xs = Inr ys \<Longrightarrow> length ys = length xs"
  by (induction xs arbitrary: i ys) (auto split: sum.splits)

lemma map_index_nth:
  "map_index f i xs = Inr ys \<Longrightarrow> j < length xs \<Longrightarrow> f (xs ! j) (i + j) = Inr (ys ! j)"
proof (induction xs arbitrary: i ys j)
  case Nil
  then show ?case by simp
next
  case (Cons x xs)
  from Cons.prems(1) obtain y zs where y: "f x i = Inr y" and zs: "map_index f (Suc i) xs = Inr zs"
    and ys: "ys = y # zs" by (auto split: sum.splits)
  show ?case
  proof (cases j)
    case 0
    with y ys show ?thesis by simp
  next
    case (Suc j')
    with Cons.prems(2) have "j' < length xs" by simp
    from Cons.IH[OF zs this] Suc ys show ?thesis by simp
  qed
qed

lemma map_index_succeeds:
  "(\<And>x k. x \<in> set xs \<Longrightarrow> \<exists>y. f x k = Inr y) \<Longrightarrow> \<exists>ys. map_index f i xs = Inr ys"
proof (induction xs arbitrary: i)
  case Nil
  then show ?case by simp
next
  case (Cons x xs)
  obtain y where "f x i = Inr y" using Cons.prems[of x i] by auto
  moreover obtain ys where "map_index f (Suc i) xs = Inr ys"
    using Cons.IH[of "Suc i"] Cons.prems by auto
  ultimately show ?case by simp
qed

lemma map_index_fails:
  "x \<in> set xs \<Longrightarrow> (\<And>k. f x k = Inl TypeError) \<Longrightarrow> map_index f i xs = Inl TypeError"
proof (induction xs arbitrary: i)
  case Nil
  then show ?case by simp
next
  case (Cons a xs)
  show ?case
  proof (cases "x = a")
    case True
    with Cons.prems(2)[of i] show ?thesis by simp
  next
    case False
    with Cons.prems(1) have "x \<in> set xs" by simp
    from Cons.IH[OF this Cons.prems(2), of "Suc i"] show ?thesis
      by (simp split: sum.splits)
  qed
qed

lemma steps_of_Some:
  assumes "steps_of r = Some ss"
  shows "\<exists>legs leg. r \<noteq> JNull \<and> r \<noteq> JUndefined \<and> get_prop r ''legs'' = Inr legs
           \<and> get_index legs 0 = Inr leg \<and> get_prop leg ''steps'' = Inr (JArr ss)"
proof -
  from assms obtain legs where l: "get_prop r ''legs'' = Inr legs"
    by (cases "get_prop r ''legs''") (auto simp: steps_of_def)
  with assms obtain leg where g: "get_index legs 0 = Inr leg"
    by (cases "get_index legs 0") (auto simp: steps_of_def)
  with l assms have "get_prop leg ''steps'' = Inr (JArr ss)"
    by (auto simp: steps_of_def split: sum.splits js_value.splits)
  moreover from l have "r \<noteq> JNull" "r \<noteq> JUndefined" by auto
  ultimately show ?thesis using l g by blast
qed

lemma steps_of_None:
  assumes "steps_of r = None"
  shows "mapRoute r i = Inl TypeError"
proof (cases "and_then (get_prop r ''legs'') (\<lambda>legs.
           and_then (get_index legs 0) (\<lambda>leg. get_prop leg ''steps''))")
  case (Inl e)
  show ?thesis
  proof (cases "get_prop r ''distance''")
    case (Inl e')
    then show ?thesis by (simp add: mapRoute_def)
  next
    case (Inr d)
    then have r: "r \<noteq> JNull" "r \<noteq> JUndefined" by auto
    obtain u where u: "get_prop r ''duration'' = Inr u" using get_prop_value[OF r] by blast
    obtain g where g: "get_prop r ''geometry'' = Inr g" using get_prop_value[OF r] by blast
    obtain legs where legs: "get_prop r ''legs'' = Inr legs" using get_prop_value[OF r] by blast
    show ?thesis
    proof (cases "get_index legs 0")
      case (Inl e')
      then show ?thesis by (simp add: mapRoute_def Inr u g legs)
    next
      case leg: (Inr leg)
      with Inl legs have "get_prop leg ''steps'' = Inl TypeError"
        by (cases "get_prop leg ''steps''") auto
      then show ?thesis by (simp add: mapRoute_def Inr u g legs leg)
    qed
  qed
next
  case (Inr ss)
  with assms have na: "\<And>xs. ss \<noteq> JArr xs" by (auto simp: steps_of_def)
  then have m: "js_map ss mapStep = Inl TypeError"
    by (cases ss) (auto simp: js_map_def)
  from Inr obtain legs leg where l: "get_prop r ''legs'' = Inr legs" "get_index legs 0 = Inr leg"
    "get_prop leg ''steps'' = Inr ss"
    by (cases "get_prop r ''legs''"; cases "get_index (projr (get_prop r ''legs'')) 0") auto
  then have r: "r \<noteq> JNull" "r \<noteq> JUndefined" by auto
  obtain d where d: "get_prop r ''distance'' = Inr d" using get_prop_value[OF r] by blast
  obtain u where u: "get_prop r ''duration'' = Inr u" using get_prop_value[OF r] by blast
  obtain g where g: "get_prop r ''geometry'' = Inr g" using get_prop_value[OF r] by blast
  show ?thesis by (simp add: mapRoute_def d u g l m)
qed

lemma js_map_steps:
  assumes "list_all step_readable ss"
  shows "\<exists>sts. js_map (JArr ss) mapStep = Inr sts \<and> length sts = length ss"
proof -
  have "\<exists>sts. map_index mapStep 0 ss = Inr sts"
    using assms by (intro map_index_succeeds mapStep_readable) (simp add: list_all_iff)
  then obtain sts where "map_index mapStep 0 ss = Inr sts" ..
  then show ?thesis using map_index_length[of mapStep 0 ss sts] by (simp add: js_map_def)
qed

lemma mapRoute_well_formed:
  assumes "route_well_formed r"
  shows "\<exists>rt. mapRoute r i = Inr rt \<and> route_id rt = ''route-'' @ Number_toString (int i)
           \<and> isAlternative rt = (0 < i) \<and> length (steps rt) = length (the (steps_of r))"
proof -
  from assms obtain ss where ss: "steps_of r = Some ss" "list_all step_readable ss"
    by (auto simp: route_well_formed_def split: option.splits)
  from steps_of_Some[OF ss(1)] obtain legs leg where
    r: "r \<noteq> JNull" "r \<noteq> JUndefined" and l: "get_prop r ''legs'' = Inr legs"
    "get_index legs 0 = Inr leg" "get_prop leg ''steps'' = Inr (JArr ss)" by blast
  obtain d where d: "get_prop r ''distance'' = Inr d" using get_prop_value[OF r] by blast
  obtain u where u: "get_prop r ''duration'' = Inr u" using get_prop_value[OF r] by blast
  obtain g where g: "get_prop r ''geometry'' = Inr g" using get_prop_value[OF r] by blast
  from js_map_steps[OF ss(2)] obtain sts where
    sts: "js_map (JArr ss) mapStep = Inr sts" "length sts = length ss" by blast
  show ?thesis by (simp add: mapRoute_def d u g l sts ss(1))
qed

lemma mapRoute_malformed:
  assumes "\<not> route_well_formed r"
  shows "mapRoute r i = Inl TypeError"
proof (cases "steps_of r")
  case None
  then show ?thesis by (rule steps_of_None)
next
  case (Some ss)
  with assms obtain st where st: "st \<in> set ss" "\<not> step_readable st"
    by (auto simp: route_well_formed_def list_all_iff)
  then have m: "js_map (JArr ss) mapStep = Inl TypeError"
    by (simp add: js_map_def map_index_fails mapStep_unreadable)
  from steps_of_Some[OF Some] obtain legs leg where
    r: "r \<noteq> JNull" "r \<noteq> JUndefined" and l: "get_prop r ''legs'' = Inr legs"
    "get_index legs 0 = Inr leg" "get_prop leg ''steps'' = Inr (JArr ss)" by blast
  obtain d where d: "get_prop r ''distance'' = Inr d" using get_prop_value[OF r] by blast
  obtain u where u: "get_prop r ''duration'' = Inr u" using get_prop_value[OF r] by blast
  obtain g where g: "get_prop r ''geometry'' = Inr g" using get_prop_value[OF r] by blast
  show ?thesis by (simp add: mapRoute_def d u g l m)
qed

lemma getDirections_array:
  assumes "get_prop data ''routes'' = Inr (JArr rs)"
  shows "getDirections (Resolved data) =
     (case map_index mapRoute 0 rs of Inl e \<Rightarrow> [] | Inr out \<Rightarrow> out)"
  using assms by (cases rs) (simp_all add: getDirections_def directions_routes_def js_map_def)

lemma getDirections_well_formed:
  assumes "get_prop data ''routes'' = Inr (JArr rs)" and "\<forall>r\<in>set rs. route_well_formed r"
  shows "length (getDirections (Resolved data)) = length rs"
    and "i < length rs \<Longrightarrow>
           route_id (getDirections (Resolved data) ! i) = ''route-'' @ Number_toString (int i)
         \<and> isAlternative (getDirections (Resolved data) ! i) = (0 < i)
         \<and> length (steps (getDirections (Resolved data) ! i)) = length (the (steps_of (rs ! i)))"
proof -
  have "\<exists>out. map_index mapRoute 0 rs = Inr out"
  proof (rule map_index_succeeds)
    fix x k assume "x \<in> set rs"
    with assms(2) have "route_well_formed x" by simp
    from mapRoute_well_formed[OF this, of k] show "\<exists>y. mapRoute x k = Inr y" by blast
  qed
  then obtain out where out: "map_index mapRoute 0 rs = Inr out" ..
  then have g: "getDirections (Resolved data) = out"
    by (simp add: getDirections_array[OF assms(1)])
  show "length (getDirections (Resolved data)) = length rs"
    using map_index_length[OF out] g by simp
  show "route_id (getDirections (Resolved data) ! i) = ''route-'' @ Number_toString (int i)
         \<and> isAlternative (getDirections (Resolved data) ! i) = (0 < i)
         \<and> length (steps (getDirections (Resolved data) ! i)) = length (the (steps_of (rs ! i)))"
    if "i < length rs"
  proof -
    from that assms(2) have "route_well_formed (rs ! i)" by simp
    from mapRoute_well_formed[OF this, of i] map_index_nth[OF out that] g
    show ?thesis by auto
  qed
qed

lemma getDirections_malformed:
  assumes "get_prop data ''routes'' = Inr (JArr rs)" and "r \<in> set rs" and "\<not> route_well_formed r"
  shows "getDirections (Resolved data) = []"
proof -
  have "map_index mapRoute 0 rs = Inl TypeError"
    using assms(2) by (rule map_index_fails) (simp add: mapRoute_malformed[OF assms(3)])
  then show ?thesis by (simp add: getDirections_array[OF assms(1)])
qed

lemma getDirections_empty:
  "get_prop data ''routes'' = Inr (JArr []) \<Longrightarrow> getDirections (Resolved data) = []"
  by (simp add: getDirections_array)

lemma getDirections_rejected: "getDirections Rejected = []"
  by (simp add: getDirections_def)

lemma getDirections_exception:
  "directions_routes data = Inl e \<Longrightarrow> getDirections (Resolved data) = []"
  by (simp add: getDirections_def)

lemma mapStep_sample:
  "mapStep sample_step k = Inr \<lparr>instruction = JStr ''Turn left'', step_distance = JNum 120,
     step_duration = JNum 30, maneuver_type = JStr ''turn'', maneuver_modifier = JStr ''left''\<rparr>"
  by (simp add: mapStep_def sample_step_def)

lemma steps_of_sample: "steps_of (sample_route ss) = Some ss"
  by (simp add: steps_of_def sample_route_def)

lemma step_readable_sample: "step_readable sample_step"
  by (simp add: step_readable_def sample_step_def)

lemma routes_of_response: "get_prop (response_of rs) ''routes'' = Inr (JArr rs)"
  by (simp add: response_of_def)

lemma mapRoute_sample_empty:
  "mapRoute (sample_route []) 0 =
     Inr \<lparr>route_id = ''route-0'', distance = JNum 120, duration = JNum 30,
          geometry = JObj [(''coordinates'', JArr [])], steps = [], isAlternative = False\<rparr>"
  by (simp add: mapRoute_def sample_route_def js_map_def Number_toString_0)

lemma steps_of_no_legs: "steps_of route_without_legs = None"
  by (simp add: steps_of_def route_without_legs_def)

text \<open>
  The comparison \<open>length > 0\<close> matters on numbers only: with any comparison that agrees
  with \<open>gt_zero\<close> on numbers and on \<open>undefined\<close>, the result is the same.
\<close>

lemma directions_routes_with_gt_zero: "directions_routes_with gt_zero data = directions_routes data"
  by (simp add: directions_routes_with_def directions_routes_def)

lemma getDirections_comparison_irrelevant:
  assumes num: "\<And>n. gt (JNum n) = (0 < n)" and undef: "\<not> gt JUndefined"
  shows "(case directions_routes_with gt data of Inl e \<Rightarrow> [] | Inr rs \<Rightarrow> rs)
           = getDirections (Resolved data)"
proof (cases "get_prop data ''routes''")
  case (Inl e)
  then show ?thesis
    by (simp add: directions_routes_with_def directions_routes_def getDirections_def)
next
  case (Inr routes)
  show ?thesis
  proof (cases routes)
    case (JObj kvs)
    have "js_map (JObj kvs) mapRoute = Inl TypeError" by (simp add: js_map_def)
    with Inr JObj show ?thesis
      by (simp add: directions_routes_with_def directions_routes_def getDirections_def)
  next
    case (JStr s)
    have "js_map (JStr s) mapRoute = Inl TypeError" by (simp add: js_map_def)
    with Inr JStr num show ?thesis
      by (simp add: directions_routes_with_def directions_routes_def getDirections_def)
  qed (use Inr num undef in
      \<open>simp_all add: directions_routes_with_def directions_routes_def getDirections_def\<close>)
qed

text \<open>
  Claim C2, as stated: a response whose routes array has \<open>N \<ge> 1\<close> elements yields \<open>N\<close>
  routes, each with a non-empty list of steps. A response with one route whose first leg
  has an empty steps array yields one route with no steps, and a response whose second
  of two routes is \<open>null\<close> yields no route at all.
\<close>

theorem getDirections_counterexample:
  "get_prop (response_of [sample_route []]) ''routes'' = Inr (JArr [sample_route []])
   \<and> length (getDirections (Resolved (response_of [sample_route []]))) = 1
   \<and> steps (getDirections (Resolved (response_of [sample_route []])) ! 0) = []
   \<and> get_prop (response_of [sample_route [sample_step], JNull]) ''routes''
       = Inr (JArr [sample_route [sample_step], JNull])
   \<and> getDirections (Resolved (response_of [sample_route [sample_step], JNull])) = []"
proof -
  have "getDirections (Resolved (response_of [sample_route []])) =
     [\<lparr>route_id = ''route-0'', distance = JNum 120, duration = JNum 30,
          geometry = JObj [(''coordinates'', JArr [])], steps = [], isAlternative = False\<rparr>]"
    by (simp add: getDirections_array[OF routes_of_response] mapRoute_sample_empty)
  moreover have "getDirections (Resolved (response_of [sample_route [sample_step], JNull])) = []"
    by (rule getDirections_malformed[OF routes_of_response, of JNull])
       (simp_all add: route_well_formed_def steps_of_def)
  ultimately show ?thesis by (simp add: routes_of_response)
qed

text \<open>
  Claim C2, amended. For every directions response whose routes array has \<open>N \<ge> 1\<close>
  elements, each carrying in its first leg a steps array whose steps all have a
  maneuver, \<open>getDirections\<close> returns exactly \<open>N\<close> routes in order, with the ids
  \<open>route-0\<close> to \<open>route-(N-1)\<close>, \<open>isAlternative\<close> false at index 0 and true at every
  later index, and on every route as many steps as the response's route has in its first
  leg. For an empty routes array, for a body whose reading throws, and for a failed
  request or parse it returns the empty list.
\<close>

theorem getDirections_routes:
  "(get_prop data ''routes'' = Inr (JArr rs) \<and> rs \<noteq> [] \<and> (\<forall>r\<in>set rs. route_well_formed r) \<longrightarrow>
      length (getDirections (Resolved data)) = length rs
      \<and> (\<forall>i<length rs.
            route_id (getDirections (Resolved data) ! i) = ''route-'' @ Number_toString (int i)
          \<and> isAlternative (getDirections (Resolved data) ! i) = (0 < i)
          \<and> length (steps (getDirections (Resolved data) ! i)) = length (the (steps_of (rs ! i)))))
   \<and> (get_prop data ''routes'' = Inr (JArr []) \<longrightarrow> getDirections (Resolved data) = [])
   \<and> (directions_routes data = Inl e \<longrightarrow> getDirections (Resolved data) = [])
   \<and> getDirections Rejected = []"
  using getDirections_well_formed[of data rs] getDirections_empty[of data]
    getDirections_exception[of data e] getDirections_rejected
  by blast

lemma sample_two_well_formed:
  "\<forall>r\<in>set [sample_route [sample_step], sample_route [sample_step, sample_step]]. route_well_formed r"
  by (simp add: route_well_formed_def steps_of_sample step_readable_sample)

theorem getDirections_routes_witness:
  "get_prop (response_of [sample_route [sample_step], sample_route [sample_step, sample_step]]) ''routes''
      = Inr (JArr [sample_route [sample_step], sample_route [sample_step, sample_step]])
   \<and> route_well_formed (sample_route [sample_step])
   \<and> route_well_formed (sample_route [sample_step, sample_step])
   \<and> length (getDirections (Resolved (response_of
         [sample_route [sample_step], sample_route [sample_step, sample_step]]))) = 2
   \<and> route_id (getDirections (Resolved (response_of
         [sample_route [sample_step], sample_route [sample_step, sample_step]])) ! 1) = ''route-1''
   \<and> isAlternative (getDirections (Resolved (response_of
         [sample_route [sample_step], sample_route [sample_step, sample_step]])) ! 1)
   \<and> \<not> isAlternative (getDirections (Resolved (response_of
         [sample_route [sample_step], sample_route [sample_step, sample_step]])) ! 0)
   \<and> length (steps (getDirections (Resolved (response_of
         [sample_route [sample_step], sample_route [sample_step, sample_step]])) ! 1)) = 2
   \<and> get_prop (response_of []) ''routes'' = Inr (JArr [])
   \<and> getDirections (Resolved (response_of [])) = []
   \<and> directions_routes JNull = Inl TypeError
   \<and> getDirections (Resolved JNull) = []"
proof -
  let ?rs = "[sample_route [sample_step], sample_route [sample_step, sample_step]]"
  let ?out = "getDirections (Resolved (response_of ?rs))"
  have p: "get_prop (response_of ?rs) ''routes'' = Inr (JArr ?rs)" by (rule routes_of_response)
  have n: "?rs \<noteq> []" by simp
  note t = getDirections_routes[of "response_of ?rs" ?rs]
  from t p n sample_two_well_formed have len: "length ?out = length ?rs" by blast
  from t p n sample_two_well_formed have
    all: "\<forall>i<length ?rs. route_id (?out ! i) = ''route-'' @ Number_toString (int i)
          \<and> isAlternative (?out ! i) = (0 < i)
          \<and> length (steps (?out ! i)) = length (the (steps_of (?rs ! i)))" by blast
  from all have i1: "route_id (?out ! 1) = ''route-'' @ Number_toString (int 1)
          \<and> isAlternative (?out ! 1) = (0 < (1::nat))
          \<and> length (steps (?out ! 1)) = length (the (steps_of (?rs ! 1)))" by simp
  from all have i0: "isAlternative (?out ! 0) = (0 < (0::nat))" by simp
  have e: "get_prop (response_of []) ''routes'' = Inr (JArr [])" by (rule routes_of_response)
  with getDirections_routes[of "response_of []"] have e2: "getDirections (Resolved (response_of [])) = []"
    by blast
  have x: "directions_routes JNull = Inl TypeError" by (simp add: directions_routes_def)
  with getDirections_routes[of JNull _ TypeError] have x2: "getDirections (Resolved JNull) = []"
    by blast
  from len i1 i0 show ?thesis
    using p sample_two_well_formed e e2 x x2
    by (simp add: steps_of_sample Number_toString_1)
qed

text \<open>
  Claim C9. For every directions response in which some route of the routes array has
  no first leg or no steps array, \<open>getDirections\<close> returns the empty list and not a
  partial one: one such route discards all routes, those before it included.
\<close>

theorem getDirections_discards_all:
  assumes "get_prop data ''routes'' = Inr (JArr rs)" and "r \<in> set rs" and "steps_of r = None"
  shows "getDirections (Resolved data) = []"
  using assms by (intro getDirections_malformed[of data rs r]) (simp_all add: route_well_formed_def)

theorem getDirections_discards_all_witness:
  "get_prop (response_of [sample_route [sample_step], route_without_legs]) ''routes''
      = Inr (JArr [sample_route [sample_step], route_without_legs])
   \<and> route_without_legs \<in> set [sample_route [sample_step], route_without_legs]
   \<and> steps_of route_without_legs = None
   \<and> route_well_formed (sample_route [sample_step])
   \<and> getDirections (Resolved (response_of [sample_route [sample_step], route_without_legs])) = []"
proof -
  have m: "route_without_legs \<in> set [sample_route [sample_step], route_without_legs]" by simp
  from getDirections_discards_all[OF routes_of_response m steps_of_no_legs] show ?thesis
    using m by (simp add: routes_of_response steps_of_no_legs route_well_formed_def
        steps_of_sample step_readable_sample)
qed

section \<open>Session transitions\<close>

lemma reachable_run: "reachable app \<Longrightarrow> run_enabled es app \<Longrightarrow> reachable (run es app)"
proof (induction es arbitrary: app)
  case Nil
  then show ?case by simp
next
  case (Cons e es)
  from Cons.prems have "reachable (fire e app)" by (simp add: reachable_fire)
  with Cons.IH[of "fire e app"] Cons.prems show ?case by simp
qed

lemma getDirections_one_route:
  "getDirections (Resolved (response_of [sample_route [sample_step]])) =
     [\<lparr>route_id = ''route-0'', distance = JNum 120, duration = JNum 30,
       geometry = JObj [(''coordinates'', JArr [])],
       steps = [\<lparr>instruction = JStr ''Turn left'', step_distance = JNum 120,
                 step_duration = JNum 30, maneuver_type = JStr ''turn'',
                 maneuver_modifier = JStr ''left''\<rparr>],
       isAlternative = False\<rparr>]"
  by (simp add: getDirections_def directions_routes_def response_of_def sample_route_def
      sample_step_def js_map_def mapRoute_def mapStep_def and_then_def Number_toString_def
      toString_nat_def digits.simps digit_char_def)

lemma evening_session_value:
  "evening_session =
     \<lparr>state =
        \<lparr>origin = Some av_paulista, destination = Some ibirapuera,
         currentLocation = Some av_paulista,
         routes = getDirections (Resolved (response_of [sample_route [sample_step]])),
         selectedRoute = Some (hd (getDirections (Resolved (response_of [sample_route [sample_step]])))),
         isNavigating = True, currentStepIndex = 0, isDarkMode = True\<rparr>,
      originInput = ''Av. Paulista'', destinationInput = ''Ibirapuera'',
      isVoiceEnabled = True, isLoading = False, showRoutes = True\<rparr>"
  by (simp add: evening_session_def evening_events_def initial_app_def initial_state_def
      autoDarkMode_def onCurrentPosition_def handleSearch_def handleStartNavigation_def
      getDirections_one_route)

lemma evening_events_enabled: "run_enabled evening_events initial_app"
  by (simp add: evening_events_def initial_app_def initial_state_def
      autoDarkMode_def onCurrentPosition_def handleSearch_def handleStartNavigation_def
      getDirections_one_route)

text \<open>
  Claim C1, as stated: from every reachable non-idle state the stop action yields the
  initial \<open>NavigationState\<close>, the fields it does not clear being at their session-start
  values. The evening session is reachable and navigating; after the stop its theme is
  still dark and its device position still known, so the state is not the initial one.
\<close>

theorem handleStopNavigation_counterexample:
  "reachable evening_session
   \<and> non_idle (state evening_session)
   \<and> state (handleStopNavigation evening_session) \<noteq> initial_state
   \<and> isDarkMode (state (handleStopNavigation evening_session))
   \<and> currentLocation (state (handleStopNavigation evening_session)) = Some av_paulista"
proof -
  have "reachable evening_session"
    unfolding evening_session_def
    using reachable_initial evening_events_enabled by (rule reachable_run)
  moreover have "non_idle (state evening_session)"
    by (simp add: evening_session_value non_idle_def)
  moreover have "isDarkMode (state (handleStopNavigation evening_session))"
    by (simp add: evening_session_value handleStopNavigation_def)
  moreover have "currentLocation (state (handleStopNavigation evening_session)) = Some av_paulista"
    by (simp add: evening_session_value handleStopNavigation_def)
  moreover have "\<not> isDarkMode initial_state" by (simp add: initial_state_def)
  ultimately show ?thesis by auto
qed

text \<open>
  Claim C1, amended. From every session state the stop action clears origin,
  destination, route list and selected route, sets the navigating flag to false and the
  step index to 0, and keeps the device position and the theme as they are at that
  moment; the result is the initial \<open>NavigationState\<close> exactly when no position is known
  and the theme is light. Applying the stop action twice gives the same as once.
\<close>

theorem handleStopNavigation_reset:
  "state (handleStopNavigation app) =
     \<lparr>origin = None, destination = None, currentLocation = currentLocation (state app),
      routes = [], selectedRoute = None, isNavigating = False, currentStepIndex = 0,
      isDarkMode = isDarkMode (state app)\<rparr>
   \<and> (state (handleStopNavigation app) = initial_state)
       = (currentLocation (state app) = None \<and> \<not> isDarkMode (state app))
   \<and> handleStopNavigation (handleStopNavigation app) = handleStopNavigation app"
  by (cases "state app") (auto simp: handleStopNavigation_def initial_state_def)

lemma handleSearch_unchanged:
  assumes "originResult = Resolved None \<or> destResult = Resolved None"
  shows "state (handleSearch originResult destResult directions app) = state app"
    and "showRoutes (handleSearch originResult destResult directions app) = showRoutes app"
  using assms
  by (auto simp: handleSearch_def Let_def split: outcome.splits option.splits)

text \<open>
  Claim C3. For every search in which at least one of the two geocoding calls returns
  absent, the \<open>NavigationState\<close> is left unchanged: origin, destination, route list and
  selected route keep their values, and the route list is not shown.
\<close>

theorem handleSearch_geocode_absent:
  assumes "originResult = Resolved None \<or> destResult = Resolved None"
  shows "state (handleSearch originResult destResult directions app) = state app
       \<and> showRoutes (handleSearch originResult destResult directions app) = showRoutes app"
  using handleSearch_unchanged[OF assms] by simp

lemma typed_session_value:
  "typed_session = initial_app\<lparr>originInput := ''Av. Paulista'', destinationInput := ''Ibirapuera''\<rparr>"
  by (simp add: typed_session_def)

theorem handleSearch_geocode_absent_witness:
  "(Resolved (Some av_paulista) = Resolved None \<or> (Resolved None :: Coordinates option outcome) = Resolved None)
   \<and> originInput typed_session \<noteq> [] \<and> destinationInput typed_session \<noteq> []
   \<and> state (handleSearch (Resolved (Some av_paulista)) (Resolved None)
              (Resolved (response_of [sample_route [sample_step]])) typed_session) = initial_state
   \<and> \<not> showRoutes (handleSearch (Resolved (Some av_paulista)) (Resolved None)
              (Resolved (response_of [sample_route [sample_step]])) typed_session)"
proof -
  have h: "Resolved (Some av_paulista) = Resolved None
            \<or> (Resolved None :: Coordinates option outcome) = Resolved None" by simp
  from handleSearch_geocode_absent[OF h, of "Resolved (response_of [sample_route [sample_step]])" typed_session]
  show ?thesis by (simp add: typed_session_value initial_app_def)
qed








end
